theory Spec2Isabelle
  imports Main "HOL-Library.Word"
begin

section \<open>JavaScript strings\<close>

text \<open>
  A JavaScript string is a sequence of UTF-16 code units. The source matches its
  regular expressions without the \<^verbatim>\<open>u\<close> flag, so every character class and every
  \<^verbatim>\<open>.\<close> consumes one code unit. ASCII text is written with \<open>js\<close>; the four
  characters of the source outside ASCII are named constants.
\<close>

type_synonym jschar = "16 word"
type_synonym jsstring = "jschar list"

definition js :: "string \<Rightarrow> jsstring" where
  "js s = map of_char s"

definition CURSOR :: jschar where
  \<comment> \<open>U+276F, the selection cursor of lines 363 and 376\<close>
  "CURSOR = 0x276F"

definition BULLET_FULL :: jschar where
  \<comment> \<open>U+25CF, first bullet of line 390\<close>
  "BULLET_FULL = 0x25CF"

definition BULLET_HALF :: jschar where
  \<comment> \<open>U+25D0, second bullet of line 390\<close>
  "BULLET_HALF = 0x25D0"

definition BULLET_DOT :: jschar where
  \<comment> \<open>U+00B7, third bullet of line 390\<close>
  "BULLET_DOT = 0xB7"

definition LF :: jschar where
  "LF = 0x0A"

definition CR :: jschar where
  "CR = 0x0D"

text \<open>
  The character classes of ECMAScript, on code units. \<^verbatim>\<open>\s\<close> is WhiteSpace together
  with LineTerminator; \<^verbatim>\<open>.\<close> (without the \<^verbatim>\<open>s\<close> flag) is everything but a
  LineTerminator; \<^verbatim>\<open>\d\<close> and \<^verbatim>\<open>\w\<close> are the ASCII digits and word characters.
\<close>

definition is_line_terminator :: "jschar \<Rightarrow> bool" where
  "is_line_terminator c = (c = 0x0A \<or> c = 0x0D \<or> c = 0x2028 \<or> c = 0x2029)"

definition is_space :: "jschar \<Rightarrow> bool" where
  "is_space c =
     (c = 0x09 \<or> c = 0x0B \<or> c = 0x0C \<or> c = 0x20 \<or> c = 0xA0 \<or> c = 0xFEFF \<or>
      c = 0x1680 \<or> (0x2000 \<le> c \<and> c \<le> 0x200A) \<or> c = 0x202F \<or> c = 0x205F \<or>
      c = 0x3000 \<or> is_line_terminator c)"

definition is_digit :: "jschar \<Rightarrow> bool" where
  "is_digit c = (0x30 \<le> c \<and> c \<le> 0x39)"

definition is_word :: "jschar \<Rightarrow> bool" where
  "is_word c =
     ((0x61 \<le> c \<and> c \<le> 0x7A) \<or> (0x41 \<le> c \<and> c \<le> 0x5A) \<or> is_digit c \<or> c = 0x5F)"

definition is_dot :: "jschar \<Rightarrow> bool" where
  "is_dot c = (\<not> is_line_terminator c)"

definition canonicalize :: "jschar \<Rightarrow> jschar" where
  \<comment> \<open>Canonicalize of the \<^verbatim>\<open>i\<close> flag, restricted to what an ASCII pattern can observe:
      an ASCII letter goes to its upper case; a code unit outside ASCII never
      canonicalizes to an ASCII one, so it is left alone.\<close>
  "canonicalize c = (if 0x61 \<le> c \<and> c \<le> 0x7A then c - 0x20 else c)"

definition same_ci :: "jschar \<Rightarrow> jschar \<Rightarrow> bool" where
  "same_ci p c = (canonicalize c = canonicalize p)"

section \<open>A backtracking matcher for the regular expressions of the source\<close>

text \<open>
  The regular expressions of \<^verbatim>\<open>parsePermissionPrompt\<close> are kept as data and run by
  one matcher, in the order ECMAScript tries alternatives: the left branch of
  \<^verbatim>\<open>|\<close> first, a greedy \<^verbatim>\<open>*\<close> with as many iterations as possible first. A match
  state is the index reached, the input still to read, and the captures so far.
\<close>

datatype rx =
    RChar "jschar \<Rightarrow> bool"
  | REmpty
  | RSeq rx rx
  | RAlt rx rx
  | RStar rx
  | RGroup nat rx
  | RBol
  | REol

type_synonym mstate = "nat \<times> jsstring \<times> (nat \<times> jsstring) list"

text \<open>
  A greedy star: iterate the body, refusing an iteration that consumes nothing (as
  RepeatMatcher does), then fall back to no further iteration. The counter starts at
  the length of the input left, which no run of consuming iterations can exceed.
\<close>

fun star_greedy :: "(mstate \<Rightarrow> mstate list) \<Rightarrow> nat \<Rightarrow> mstate \<Rightarrow> mstate list" where
  "star_greedy m 0 st = [st]"
| "star_greedy m (Suc n) st =
     concat (map (\<lambda>st'. if length (fst (snd st')) < length (fst (snd st))
                          then star_greedy m n st' else [])
                 (m st)) @ [st]"

primrec rx_match :: "rx \<Rightarrow> mstate \<Rightarrow> mstate list" where
  "rx_match (RChar P) = (\<lambda>(i, s, c).
     case s of [] \<Rightarrow> [] | x # xs \<Rightarrow> if P x then [(Suc i, xs, c)] else [])"
| "rx_match REmpty = (\<lambda>st. [st])"
| "rx_match (RSeq a b) = (\<lambda>st. concat (map (rx_match b) (rx_match a st)))"
| "rx_match (RAlt a b) = (\<lambda>st. rx_match a st @ rx_match b st)"
| "rx_match (RStar a) = (\<lambda>st. star_greedy (rx_match a) (length (fst (snd st))) st)"
| "rx_match (RGroup g a) = (\<lambda>(i, s, c).
     map (\<lambda>(j, t, d). (j, t, (g, take (j - i) s) # d)) (rx_match a (i, s, c)))"
| "rx_match RBol = (\<lambda>(i, s, c). if i = 0 then [(i, s, c)] else [])"
| "rx_match REol = (\<lambda>(i, s, c). if s = [] then [(i, s, c)] else [])"

definition RPlus :: "rx \<Rightarrow> rx" where
  "RPlus a = RSeq a (RStar a)"

definition ROpt :: "rx \<Rightarrow> rx" where
  "ROpt a = RAlt a REmpty"

definition RSeqs :: "rx list \<Rightarrow> rx" where
  "RSeqs rs = foldr RSeq rs REmpty"

definition RLitI :: "string \<Rightarrow> rx" where
  \<comment> \<open>a literal under the \<^verbatim>\<open>i\<close> flag\<close>
  "RLitI s = RSeqs (map (\<lambda>p. RChar (same_ci p)) (js s))"

text \<open>
  \<^verbatim>\<open>RegExp.prototype.exec\<close> on a regular expression without the \<^verbatim>\<open>g\<close> and
  \<^verbatim>\<open>y\<close> flags: try every start index from the left, and at each take the first
  result of the matcher. \<open>rx_exec\<close> returns the captures of the match.
\<close>

fun rx_search :: "rx \<Rightarrow> nat \<Rightarrow> jsstring \<Rightarrow> mstate option" where
  "rx_search r i s =
     (case rx_match r (i, s, []) of
        st # _ \<Rightarrow> Some st
      | [] \<Rightarrow> (case s of [] \<Rightarrow> None | _ # t \<Rightarrow> rx_search r (Suc i) t))"

definition rx_exec :: "rx \<Rightarrow> jsstring \<Rightarrow> (nat \<times> jsstring) list option" where
  "rx_exec r s = map_option (\<lambda>(_, _, c). c) (rx_search r 0 s)"

definition capture :: "(nat \<times> jsstring) list \<Rightarrow> nat \<Rightarrow> jsstring" where
  \<comment> \<open>\<^verbatim>\<open>m[g]\<close> for a group that took part in the match (every group of the source's
      regular expressions does); the empty string stands for \<^verbatim>\<open>undefined\<close>\<close>
  "capture c g = (case map_of c g of Some s \<Rightarrow> s | None \<Rightarrow> [])"

definition rx_test :: "rx \<Rightarrow> jsstring \<Rightarrow> bool" where
  "rx_test r s = (rx_search r 0 s \<noteq> None)"

section \<open>String operations used by the source\<close>

text \<open>
  \<^verbatim>\<open>s.split(/\r?\n/)\<close>: the separator matches at an index when a line feed stands
  there, or a carriage return directly followed by a line feed; a carriage return
  alone is ordinary text. The result always has at least one element.
\<close>

fun split_lines_acc :: "jsstring \<Rightarrow> jsstring \<Rightarrow> jsstring list" where
  "split_lines_acc acc [] = [rev acc]"
| "split_lines_acc acc [c] =
     (if c = LF then [rev acc, []] else [rev (c # acc)])"
| "split_lines_acc acc (c # d # s) =
     (if c = LF then rev acc # split_lines_acc [] (d # s)
      else if c = CR \<and> d = LF then rev acc # split_lines_acc [] s
      else split_lines_acc (c # acc) (d # s))"

definition split_lines :: "jsstring \<Rightarrow> jsstring list" where
  "split_lines s = split_lines_acc [] s"

definition trim :: "jsstring \<Rightarrow> jsstring" where
  \<comment> \<open>\<^verbatim>\<open>String.prototype.trim\<close>: strips WhiteSpace and LineTerminator at both ends\<close>
  "trim s = rev (dropWhile is_space (rev (dropWhile is_space s)))"

fun join :: "jsstring \<Rightarrow> jsstring list \<Rightarrow> jsstring" where
  \<comment> \<open>\<^verbatim>\<open>Array.prototype.join\<close>\<close>
  "join sep [] = []"
| "join sep [x] = x"
| "join sep (x # y # ys) = x @ sep @ join sep (y # ys)"

fun js_includes :: "jsstring \<Rightarrow> jsstring \<Rightarrow> bool" where
  \<comment> \<open>\<^verbatim>\<open>s.includes(sub)\<close>, written \<open>js_includes sub s\<close>\<close>
  "js_includes sub [] = (sub = [])"
| "js_includes sub (c # s) = (take (length sub) (c # s) = sub \<or> js_includes sub s)"

definition slice_from :: "int \<Rightarrow> 'a list \<Rightarrow> 'a list" where
  \<comment> \<open>\<^verbatim>\<open>xs.slice(start)\<close>: a negative start counts from the end, clamped at 0\<close>
  "slice_from start xs =
     (let len = int (length xs);
          k = (if start < 0 then max (len + start) 0 else min start len)
      in drop (nat k) xs)"

definition slice :: "nat \<Rightarrow> nat \<Rightarrow> 'a list \<Rightarrow> 'a list" where
  \<comment> \<open>\<^verbatim>\<open>xs.slice(a, b)\<close> for indices that are not negative; \<open>b\<close> is clamped to the length\<close>
  "slice a b xs = take (b - a) (drop a xs)"

section \<open>The prompt detector\<close>

record PermissionPrompt =
  tool :: jsstring
  prompt_context :: jsstring
  options :: "(jsstring \<times> jsstring) list"

text \<open>The seven regular expressions of \<^verbatim>\<open>parsePermissionPrompt\<close>, in source order.\<close>

definition proceed_re :: rx where
  \<comment> \<open>line 347: \<^verbatim>\<open>/(Do you want|Would you like) to proceed\?/i\<close>\<close>
  "proceed_re = RSeq (RGroup 1 (RAlt (RLitI ''Do you want'') (RLitI ''Would you like'')))
                     (RLitI '' to proceed?'')"

definition footer_re :: rx where
  \<comment> \<open>line 359: \<^verbatim>\<open>/Esc to cancel|ctrl-g to edit/i\<close>\<close>
  "footer_re = RAlt (RLitI ''Esc to cancel'') (RLitI ''ctrl-g to edit'')"

definition selector_re :: rx where
  \<comment> \<open>line 363: \<^verbatim>\<open>/^\s*C/\<close> with \<^verbatim>\<open>C\<close> the cursor U+276F\<close>
  "selector_re = RSeqs [RBol, RStar (RChar is_space), RChar (\<lambda>c. c = CURSOR)]"

definition esc_re :: rx where
  \<comment> \<open>line 374: \<^verbatim>\<open>/Esc to cancel/i\<close>\<close>
  "esc_re = RLitI ''Esc to cancel''"

definition option_re :: rx where
  \<comment> \<open>line 376: \<^verbatim>\<open>/^\s*[C>]?\s*(\d+)\.\s+(.+)$/\<close> with \<^verbatim>\<open>C\<close> the cursor U+276F\<close>
  "option_re = RSeqs [RBol, RStar (RChar is_space),
                      ROpt (RChar (\<lambda>c. c = CURSOR \<or> c = 0x3E)),
                      RStar (RChar is_space),
                      RGroup 1 (RPlus (RChar is_digit)),
                      RChar (\<lambda>c. c = 0x2E),
                      RPlus (RChar is_space),
                      RGroup 2 (RPlus (RChar is_dot)),
                      REol]"

definition tool_re :: rx where
  \<comment> \<open>line 390: \<^verbatim>\<open>/[B1 B2 B3]\s*(\w+)\s*\(/\<close> with the bullets U+25CF, U+25D0, U+00B7\<close>
  "tool_re = RSeqs [RChar (\<lambda>c. c = BULLET_FULL \<or> c = BULLET_HALF \<or> c = BULLET_DOT),
                    RStar (RChar is_space),
                    RGroup 1 (RPlus (RChar is_word)),
                    RStar (RChar is_space),
                    RChar (\<lambda>c. c = 0x28)]"

definition cmd_re :: rx where
  \<comment> \<open>line 395:
      \<^verbatim>\<open>/^\s*(Bash|Read|Write|Edit|Grep|Glob|Task|WebFetch|WebSearch)\s+\w+/i\<close>\<close>
  "cmd_re = RSeqs [RBol, RStar (RChar is_space),
                   RGroup 1 (RAlt (RLitI ''Bash'') (RAlt (RLitI ''Read'') (RAlt (RLitI ''Write'')
                     (RAlt (RLitI ''Edit'') (RAlt (RLitI ''Grep'') (RAlt (RLitI ''Glob'')
                     (RAlt (RLitI ''Task'') (RAlt (RLitI ''WebFetch'') (RLitI ''WebSearch''))))))))),
                   RPlus (RChar is_space),
                   RPlus (RChar is_word)]"

text \<open>
  The first loop (lines 345 to 351): from the last line down to index
  \<^verbatim>\<open>Math.max(0, lines.length - 30)\<close>, stop at the first line with the question.
  Subtraction on \<open>nat\<close> stops at 0, which is the \<^verbatim>\<open>Math.max\<close>.
\<close>

definition find_proceed :: "jsstring list \<Rightarrow> nat option" where
  "find_proceed lines =
     List.find (\<lambda>i. rx_test proceed_re (lines ! i))
               (rev [length lines - 30 ..< length lines])"

text \<open>
  The second loop (lines 356 to 366) over the indices \<open>is\<close>: a footer line ends the loop
  with \<^verbatim>\<open>hasFooter\<close> set; a cursor line sets \<^verbatim>\<open>hasSelector\<close> and goes on. The result is
  \<^verbatim>\<open>(hasFooter, hasSelector)\<close>.
\<close>

fun footer_loop :: "jsstring list \<Rightarrow> nat list \<Rightarrow> bool \<Rightarrow> bool \<times> bool" where
  "footer_loop lines [] hasSelector = (False, hasSelector)"
| "footer_loop lines (i # is) hasSelector =
     (if rx_test footer_re (lines ! i) then (True, hasSelector)
      else footer_loop lines is (if rx_test selector_re (lines ! i) then True else hasSelector))"

text \<open>The third loop (lines 371 to 383): collects the numbered options, stops at the footer.\<close>

fun options_loop ::
  "jsstring list \<Rightarrow> nat list \<Rightarrow> (jsstring \<times> jsstring) list \<Rightarrow> (jsstring \<times> jsstring) list" where
  "options_loop lines [] acc = acc"
| "options_loop lines (i # is) acc =
     (if rx_test esc_re (lines ! i) then acc
      else options_loop lines is
             (case rx_exec option_re (lines ! i) of
                Some m \<Rightarrow> acc @ [(capture m 1, trim (capture m 2))]
              | None \<Rightarrow> acc))"

text \<open>The fourth loop (lines 388 to 400): the tool name, \<^verbatim>\<open>Unknown\<close> when no line matches.\<close>

fun tool_loop :: "jsstring list \<Rightarrow> nat list \<Rightarrow> jsstring" where
  "tool_loop lines [] = js ''Unknown''"
| "tool_loop lines (i # is) =
     (case rx_exec tool_re (lines ! i) of
        Some m \<Rightarrow> capture m 1
      | None \<Rightarrow>
          (case rx_exec cmd_re (lines ! i) of
             Some m \<Rightarrow> capture m 1
           | None \<Rightarrow> tool_loop lines is))"

definition parsePermissionPrompt :: "jsstring \<Rightarrow> PermissionPrompt option" where
  "parsePermissionPrompt output =
     (let lines = split_lines output in
      case find_proceed lines of
        None \<Rightarrow> None
      | Some proceedLineIdx \<Rightarrow>
          let (hasFooter, hasSelector) =
                footer_loop lines
                  [proceedLineIdx + 1 ..< min (length lines) (proceedLineIdx + 15)] False
          in if \<not> hasFooter \<and> \<not> hasSelector then None
             else
               let opts = options_loop lines
                            [proceedLineIdx + 1 ..< min (length lines) (proceedLineIdx + 10)] []
               in if length opts < 2 then None
                  else
                    let tl = tool_loop lines (rev [proceedLineIdx - 20 ..< proceedLineIdx + 1]);
                        contextStart = proceedLineIdx - 10;
                        contextEnd = proceedLineIdx + 1 + length opts
                    in Some \<lparr> tool = tl,
                              prompt_context = trim (join [LF] (slice contextStart contextEnd lines)),
                              options = opts \<rparr>)"

section \<open>Sessions and child processes\<close>

text \<open>
  \<^verbatim>\<open>ChildProcess\<close> is Node's object; the model keeps the members the source reads
  (\<^verbatim>\<open>killed\<close>, \<^verbatim>\<open>exitCode\<close>, \<^verbatim>\<open>stdin\<close>) and \<^verbatim>\<open>signalCode\<close>, which Node sets instead
  of \<^verbatim>\<open>exitCode\<close> when a signal ended the process. The writable end of stdin is the
  trace of the calls made on it: the chunks handed to \<^verbatim>\<open>write\<close>, and whether \<^verbatim>\<open>end\<close>
  was called. \<open>kill_calls\<close> is the trace of the signals handed to \<^verbatim>\<open>kill\<close>.
\<close>

datatype status = idle | working | offline

record Writable =
  written :: "jsstring list"
  ended :: bool

record ChildProcess =
  killed :: bool
  exitCode :: "int option"
  signalCode :: "jsstring option"
  stdin :: "Writable option"
  kill_calls :: "jsstring list"

record SessionState =
  session_id :: jsstring
  process :: ChildProcess
  pid :: nat
  status :: status
  outputBuffer :: "jsstring list"
  createdAt :: nat
  lastActivity :: nat

record SessionOptions =
  opt_id :: jsstring
  cwd :: jsstring
  claudeArgs :: "jsstring list"

text \<open>
  The errors of the source are plain \<^verbatim>\<open>Error\<close> objects told apart by their message;
  the names are the specification's. \<open>InvalidChunkError\<close> is the \<^verbatim>\<open>TypeError\<close> of
  Node's \<^verbatim>\<open>Writable.write\<close> for a chunk that is neither a string nor a buffer.
\<close>

datatype error =
    DuplicateSessionError
  | SpawnError
  | NotFoundError
  | OfflineError
  | UnknownControlError
  | InvalidChunkError

text \<open>The messages handed to \<^verbatim>\<open>log\<close>, one constructor per call site, with the values shown.\<close>

datatype log_event =
    LogCreating jsstring jsstring
  | LogStarted jsstring nat
  | LogExited jsstring "int option"
  | LogError jsstring jsstring
  | LogSendingText jsstring jsstring
  | LogSendingControl jsstring jsstring
  | LogKilling jsstring nat
  | LogKilled jsstring
  | LogShuttingDown
  | LogAllTerminated

text \<open>
  The manager and what it acts on. \<open>sessions\<close> is the \<^verbatim>\<open>Map\<close> in insertion order; its
  values are references into \<open>heap\<close>, where the \<^verbatim>\<open>SessionState\<close> objects live (an object
  outlives its registry entry: the handlers of its process and a running \<^verbatim>\<open>kill\<close> still
  hold it). \<open>spawned\<close> lists the calls of \<^verbatim>\<open>spawn\<close> (arguments and working directory),
  \<open>logged\<close> the calls of \<^verbatim>\<open>log\<close>. The caller's callbacks \<^verbatim>\<open>onOutput\<close> and \<^verbatim>\<open>onExit\<close>
  run caller code and are left out.
\<close>

record SessionManager =
  sessions :: "(jsstring \<times> nat) list"
  heap :: "SessionState list"
  spawned :: "(jsstring list \<times> jsstring) list"
  logged :: "log_event list"

definition MAX_OUTPUT_LINES :: nat where
  "MAX_OUTPUT_LINES = 200"

definition new_manager :: SessionManager where
  "new_manager = \<lparr> sessions = [], heap = [], spawned = [], logged = [] \<rparr>"

definition log :: "log_event \<Rightarrow> SessionManager \<Rightarrow> SessionManager" where
  "log e w = w\<lparr> logged := logged w @ [e] \<rparr>"

definition sessions_get :: "SessionManager \<Rightarrow> jsstring \<Rightarrow> nat option" where
  \<comment> \<open>\<^verbatim>\<open>this.sessions.get(id)\<close>, as a reference\<close>
  "sessions_get w k = map_of (sessions w) k"

definition sessions_delete :: "jsstring \<Rightarrow> (jsstring \<times> nat) list \<Rightarrow> (jsstring \<times> nat) list" where
  \<comment> \<open>\<^verbatim>\<open>this.sessions.delete(id)\<close>\<close>
  "sessions_delete k m = filter (\<lambda>(k', _). k' \<noteq> k) m"

definition deref :: "SessionManager \<Rightarrow> nat \<Rightarrow> SessionState" where
  "deref w r = heap w ! r"

definition modify :: "nat \<Rightarrow> (SessionState \<Rightarrow> SessionState) \<Rightarrow> SessionManager \<Rightarrow> SessionManager" where
  \<comment> \<open>an assignment to members of the object at reference \<open>r\<close>\<close>
  "modify r f w = w\<lparr> heap := (heap w)[r := f (heap w ! r)] \<rparr>"

subsection \<open>The output buffer\<close>

text \<open>
  The loop of lines 324 to 331: every line but the last gets \<^verbatim>\<open>EOL\<close> back. \<^verbatim>\<open>EOL\<close> is
  the platform's line ending, a parameter here.
\<close>

fun with_newlines :: "jsstring \<Rightarrow> jsstring list \<Rightarrow> jsstring list" where
  "with_newlines eol [] = []"
| "with_newlines eol [l] = [l]"
| "with_newlines eol (l # m # ls) = (l @ eol) # with_newlines eol (m # ls)"

definition appendOutput :: "jsstring \<Rightarrow> nat \<Rightarrow> jsstring \<Rightarrow> SessionState \<Rightarrow> SessionState" where
  "appendOutput eol now text state =
     (let pushed = outputBuffer state @ with_newlines eol (split_lines text);
          trimmed = (if length pushed > MAX_OUTPUT_LINES
                     then slice_from (- int MAX_OUTPUT_LINES) pushed else pushed)
      in state\<lparr> outputBuffer := trimmed, lastActivity := now \<rparr>)"

subsection \<open>Creation and the handlers of the process\<close>

datatype spawn_result = Spawned nat bool | NoPid

definition default_args :: "jsstring list" where
  "default_args = [js ''-c'', js ''--permission-mode=bypassPermissions'',
                   js ''--dangerously-skip-permissions'']"

text \<open>
  \<^verbatim>\<open>create\<close>: \<open>sr\<close> is what \<^verbatim>\<open>spawn\<close> gives back (a process id and whether the process has
  a stdin stream, or no process id); the test \<^verbatim>\<open>!childProcess.pid\<close> also refuses a process
  id of 0. Both reads of the clock are the one instant \<open>now\<close>. The result is the
  reference of the new object.
\<close>

definition create ::
  "nat \<Rightarrow> spawn_result \<Rightarrow> SessionOptions \<Rightarrow> SessionManager \<Rightarrow> (error + nat) \<times> SessionManager" where
  "create now sr opts w =
     (if sessions_get w (opt_id opts) \<noteq> None then (Inl DuplicateSessionError, w)
      else
        let w1 = log (LogCreating (opt_id opts) (cwd opts)) w;
            args = (if length (claudeArgs opts) > 0 then claudeArgs opts else default_args);
            w2 = w1\<lparr> spawned := spawned w1 @ [(args, cwd opts)] \<rparr>
        in case sr of
             NoPid \<Rightarrow> (Inl SpawnError, w2)
           | Spawned p has_stdin \<Rightarrow>
               if p = 0 then (Inl SpawnError, w2)
               else
                 let childProcess = \<lparr> killed = False, exitCode = None, signalCode = None,
                                       stdin = (if has_stdin
                                                then Some \<lparr> written = [], ended = False \<rparr>
                                                else None),
                                       kill_calls = [] \<rparr>;
                     state = \<lparr> session_id = opt_id opts, process = childProcess, pid = p,
                                status = idle, outputBuffer = [], createdAt = now,
                                lastActivity = now \<rparr>;
                     r = length (heap w2);
                     w3 = w2\<lparr> heap := heap w2 @ [state],
                              sessions := sessions w2 @ [(opt_id opts, r)] \<rparr>
                 in (Inr r, log (LogStarted (opt_id opts) p) w3))"

text \<open>
  The handlers attached by \<^verbatim>\<open>create\<close>, run by the events of the process of the object
  at \<open>r\<close>. Before the \<^verbatim>\<open>exit\<close> event Node records how the process ended: an exit code in
  \<^verbatim>\<open>exitCode\<close>, or the signal in \<^verbatim>\<open>signalCode\<close> with \<^verbatim>\<open>exitCode\<close> left \<^verbatim>\<open>null\<close>.
\<close>

datatype exit_outcome = ExitCode int | ExitSignal jsstring

definition on_data :: "jsstring \<Rightarrow> nat \<Rightarrow> nat \<Rightarrow> jsstring \<Rightarrow> SessionManager \<Rightarrow> SessionManager" where
  \<comment> \<open>lines 112 to 123, for stdout and stderr alike\<close>
  "on_data eol now r text w =
     (if r < length (heap w) then modify r (appendOutput eol now text) w else w)"

definition node_exit :: "exit_outcome \<Rightarrow> ChildProcess \<Rightarrow> ChildProcess" where
  "node_exit oc p =
     (case oc of
        ExitCode c \<Rightarrow> p\<lparr> exitCode := Some c \<rparr>
      | ExitSignal s \<Rightarrow> p\<lparr> signalCode := Some s \<rparr>)"

definition exit_code_of :: "exit_outcome \<Rightarrow> int option" where
  "exit_code_of oc = (case oc of ExitCode c \<Rightarrow> Some c | ExitSignal s \<Rightarrow> None)"

definition on_exit :: "nat \<Rightarrow> exit_outcome \<Rightarrow> SessionManager \<Rightarrow> SessionManager" where
  \<comment> \<open>lines 126 to 130\<close>
  "on_exit r oc w =
     (if r < length (heap w)
      then modify r (\<lambda>state. state\<lparr> status := offline \<rparr>)
             (log (LogExited (session_id (deref w r)) (exit_code_of oc))
                (modify r (\<lambda>state. state\<lparr> process := node_exit oc (process state) \<rparr>) w))
      else w)"

definition on_error :: "nat \<Rightarrow> jsstring \<Rightarrow> SessionManager \<Rightarrow> SessionManager" where
  \<comment> \<open>lines 132 to 135\<close>
  "on_error r msg w =
     (if r < length (heap w)
      then modify r (\<lambda>state. state\<lparr> status := offline \<rparr>)
             (log (LogError (session_id (deref w r)) msg) w)
      else w)"

subsection \<open>Writing to a session\<close>

definition stdin_write :: "jsstring \<Rightarrow> ChildProcess \<Rightarrow> ChildProcess" where
  \<comment> \<open>\<^verbatim>\<open>process.stdin.write(chunk)\<close>, for a process that has a stdin\<close>
  "stdin_write chunk p =
     p\<lparr> stdin := map_option (\<lambda>s. s\<lparr> written := written s @ [chunk] \<rparr>) (stdin p) \<rparr>"

definition stdin_end :: "ChildProcess \<Rightarrow> ChildProcess" where
  \<comment> \<open>\<^verbatim>\<open>process.stdin?.end()\<close>\<close>
  "stdin_end p = p\<lparr> stdin := map_option (\<lambda>s. s\<lparr> ended := True \<rparr>) (stdin p) \<rparr>"

definition sendText ::
  "nat \<Rightarrow> jsstring \<Rightarrow> jsstring \<Rightarrow> SessionManager \<Rightarrow> (error + unit) \<times> SessionManager" where
  "sendText now sessionId text w =
     (case sessions_get w sessionId of
        None \<Rightarrow> (Inl NotFoundError, w)
      | Some r \<Rightarrow>
          if status (deref w r) = offline \<or> stdin (process (deref w r)) = None
          then (Inl OfflineError, w)
          else (Inr (),
                modify r (\<lambda>state. state\<lparr> process := stdin_write (text @ [LF]) (process state),
                                           lastActivity := now \<rparr>)
                  (log (LogSendingText sessionId (take 50 text)) w)))"

text \<open>
  \<^verbatim>\<open>controlMap[char]\<close> reads a property of an object literal: one of its three own
  properties, or else a member inherited from \<^verbatim>\<open>Object.prototype\<close> (a function or an
  object, so a value that is not falsy), or else \<^verbatim>\<open>undefined\<close>.
\<close>

datatype js_prop = Undefined | Str jsstring | Inherited

definition object_prototype_names :: "jsstring list" where
  "object_prototype_names =
     [js ''constructor'', js ''hasOwnProperty'', js ''isPrototypeOf'',
      js ''propertyIsEnumerable'', js ''toLocaleString'', js ''toString'', js ''valueOf'',
      js ''__proto__'', js ''__defineGetter__'', js ''__defineSetter__'',
      js ''__lookupGetter__'', js ''__lookupSetter__'']"

definition controlMap :: "jsstring \<Rightarrow> js_prop" where
  "controlMap char =
     (if char = js ''C-c'' then Str [0x03]
      else if char = js ''C-d'' then Str [0x04]
      else if char = js ''C-z'' then Str [0x1A]
      else if char \<in> set object_prototype_names then Inherited
      else Undefined)"

definition sendControl ::
  "nat \<Rightarrow> jsstring \<Rightarrow> jsstring \<Rightarrow> SessionManager \<Rightarrow> (error + unit) \<times> SessionManager" where
  "sendControl now sessionId char w =
     (case sessions_get w sessionId of
        None \<Rightarrow> (Inl NotFoundError, w)
      | Some r \<Rightarrow>
          if status (deref w r) = offline \<or> stdin (process (deref w r)) = None
          then (Inl OfflineError, w)
          else
            (case controlMap char of
               Undefined \<Rightarrow> (Inl UnknownControlError, w)
             | Str controlChar \<Rightarrow>
                 (Inr (),
                  modify r (\<lambda>state. state\<lparr> process := stdin_write controlChar (process state),
                                             lastActivity := now \<rparr>)
                    (log (LogSendingControl sessionId char) w))
             | Inherited \<Rightarrow> (Inl InvalidChunkError, log (LogSendingControl sessionId char) w)))"

subsection \<open>Reading the output and detecting prompts\<close>

definition getOutput :: "jsstring \<Rightarrow> int \<Rightarrow> SessionManager \<Rightarrow> error + jsstring" where
  "getOutput sessionId lines w =
     (case sessions_get w sessionId of
        None \<Rightarrow> Inl NotFoundError
      | Some r \<Rightarrow> Inr (concat (slice_from (- lines) (outputBuffer (deref w r)))))"

definition getAllOutput :: "jsstring \<Rightarrow> SessionManager \<Rightarrow> error + jsstring" where
  "getAllOutput sessionId w =
     (case sessions_get w sessionId of
        None \<Rightarrow> Inl NotFoundError
      | Some r \<Rightarrow> Inr (concat (outputBuffer (deref w r))))"

definition detectPermissionPrompt ::
  "jsstring \<Rightarrow> SessionManager \<Rightarrow> error + PermissionPrompt option" where
  "detectPermissionPrompt sessionId w =
     (case getOutput sessionId 50 w of
        Inl e \<Rightarrow> Inl e
      | Inr output \<Rightarrow> Inr (parsePermissionPrompt output))"

definition detectBypassWarning :: "jsstring \<Rightarrow> SessionManager \<Rightarrow> error + bool" where
  "detectBypassWarning sessionId w =
     (case getOutput sessionId 50 w of
        Inl e \<Rightarrow> Inl e
      | Inr output \<Rightarrow>
          Inr (js_includes (js ''WARNING'') output \<and>
               js_includes (js ''Bypass Permissions mode'') output))"

subsection \<open>Accessors and status\<close>

definition list_sessions :: "SessionManager \<Rightarrow> SessionState list" where
  \<comment> \<open>\<^verbatim>\<open>list()\<close>\<close>
  "list_sessions w = map (\<lambda>(k, r). deref w r) (sessions w)"

definition get_session :: "jsstring \<Rightarrow> SessionManager \<Rightarrow> SessionState option" where
  \<comment> \<open>\<^verbatim>\<open>get(sessionId)\<close>\<close>
  "get_session sessionId w = map_option (deref w) (sessions_get w sessionId)"

definition isAlive :: "jsstring \<Rightarrow> SessionManager \<Rightarrow> bool \<times> SessionManager" where
  "isAlive sessionId w =
     (case sessions_get w sessionId of
        None \<Rightarrow> (False, w)
      | Some r \<Rightarrow>
          if killed (process (deref w r)) \<or> exitCode (process (deref w r)) \<noteq> None
          then (False, modify r (\<lambda>state. state\<lparr> status := offline \<rparr>) w)
          else (True, w))"

definition updateStatus :: "nat \<Rightarrow> jsstring \<Rightarrow> status \<Rightarrow> SessionManager \<Rightarrow> SessionManager" where
  "updateStatus now sessionId st w =
     (case sessions_get w sessionId of
        None \<Rightarrow> w
      | Some r \<Rightarrow> modify r (\<lambda>state. state\<lparr> status := st, lastActivity := now \<rparr>) w)"

subsection \<open>Termination\<close>

text \<open>
  \<^verbatim>\<open>process.kill(signal)\<close>: Node sets \<^verbatim>\<open>killed\<close> when the signal was delivered, which
  can only happen while the process has not ended. Whether it is delivered is the
  environment's, given by \<open>delivered\<close>.
\<close>

definition process_kill :: "bool \<Rightarrow> jsstring \<Rightarrow> ChildProcess \<Rightarrow> ChildProcess" where
  "process_kill delivered sig p =
     p\<lparr> kill_calls := kill_calls p @ [sig],
        killed := (killed p \<or> (delivered \<and> exitCode p = None \<and> signalCode p = None)) \<rparr>"

record kill_env =
  exit_in_first_wait :: "exit_outcome option"
  sigterm_delivered :: bool
  exit_in_second_wait :: "exit_outcome option"
  sigkill_delivered :: bool

text \<open>
  \<^verbatim>\<open>kill\<close> in the pieces its two waits cut it into. The waits themselves (one second,
  then two) are real time and not part of the model; what can happen during a wait is
  that the process ends and its \<^verbatim>\<open>exit\<close> handler runs, which \<open>kill_wait\<close> delivers when
  the environment says so. \<open>kill_begin\<close> runs up to the first wait (lines 241 to 244),
  \<open>kill_sigterm\<close> is line 251, \<open>kill_sigkill\<close> lines 255 to 257, \<open>kill_finish\<close> lines 260
  to 262; \<open>r\<close> is the object the local \<^verbatim>\<open>state\<close> holds.
\<close>

definition kill_begin :: "jsstring \<Rightarrow> nat \<Rightarrow> SessionManager \<Rightarrow> SessionManager" where
  "kill_begin sessionId r w =
     modify r (\<lambda>state. state\<lparr> process := stdin_end (process state) \<rparr>)
       (log (LogKilling sessionId (pid (deref w r))) w)"

definition kill_wait :: "exit_outcome option \<Rightarrow> nat \<Rightarrow> SessionManager \<Rightarrow> SessionManager" where
  "kill_wait ev r w = (case ev of None \<Rightarrow> w | Some oc \<Rightarrow> on_exit r oc w)"

definition kill_sigterm :: "kill_env \<Rightarrow> nat \<Rightarrow> SessionManager \<Rightarrow> SessionManager" where
  "kill_sigterm env r w =
     modify r (\<lambda>state. state\<lparr> process :=
                 process_kill (sigterm_delivered env) (js ''SIGTERM'') (process state) \<rparr>) w"

definition kill_sigkill :: "kill_env \<Rightarrow> nat \<Rightarrow> SessionManager \<Rightarrow> SessionManager" where
  "kill_sigkill env r w =
     (if \<not> killed (process (deref w r))
      then modify r (\<lambda>state. state\<lparr> process :=
                       process_kill (sigkill_delivered env) (js ''SIGKILL'') (process state) \<rparr>) w
      else w)"

definition kill_finish :: "jsstring \<Rightarrow> nat \<Rightarrow> SessionManager \<Rightarrow> SessionManager" where
  "kill_finish sessionId r w =
     log (LogKilled sessionId)
       ((modify r (\<lambda>state. state\<lparr> status := offline \<rparr>) w)
          \<lparr> sessions := sessions_delete sessionId (sessions w) \<rparr>)"

definition kill :: "kill_env \<Rightarrow> jsstring \<Rightarrow> SessionManager \<Rightarrow> SessionManager" where
  "kill env sessionId w =
     (case sessions_get w sessionId of
        None \<Rightarrow> w
      | Some r \<Rightarrow>
          let w1 = kill_wait (exit_in_first_wait env) r (kill_begin sessionId r w)
          in if \<not> killed (process (deref w1 r))
             then kill_finish sessionId r
                    (kill_sigkill env r
                       (kill_wait (exit_in_second_wait env) r (kill_sigterm env r w1)))
             else kill_finish sessionId r w1)"

text \<open>
  \<^verbatim>\<open>shutdown\<close> starts one \<^verbatim>\<open>kill\<close> per key and awaits them together, so the pieces
  interleave: every \<open>kill_begin\<close> in key order; after the first wait every \<^verbatim>\<open>kill\<close> either
  finishes (its process is marked killed) or sends SIGTERM and waits again; after the
  second wait the waiting ones send SIGKILL where needed and finish.
\<close>

fun shutdown_begin :: "(jsstring \<times> nat) list \<Rightarrow> SessionManager \<Rightarrow> SessionManager" where
  "shutdown_begin [] w = w"
| "shutdown_begin ((k, r) # ks) w = shutdown_begin ks (kill_begin k r w)"

fun shutdown_wait ::
  "(jsstring \<Rightarrow> exit_outcome option) \<Rightarrow> (jsstring \<times> nat) list \<Rightarrow> SessionManager \<Rightarrow>
   SessionManager" where
  "shutdown_wait ev [] w = w"
| "shutdown_wait ev ((k, r) # ks) w = shutdown_wait ev ks (kill_wait (ev k) r w)"

fun shutdown_sigterm ::
  "(jsstring \<Rightarrow> kill_env) \<Rightarrow> (jsstring \<times> nat) list \<Rightarrow> SessionManager \<Rightarrow>
   (jsstring \<times> nat) list \<times> SessionManager" where
  "shutdown_sigterm env [] w = ([], w)"
| "shutdown_sigterm env ((k, r) # ks) w =
     (if \<not> killed (process (deref w r))
      then (let (waiting, w') = shutdown_sigterm env ks (kill_sigterm (env k) r w)
            in ((k, r) # waiting, w'))
      else shutdown_sigterm env ks (kill_finish k r w))"

fun shutdown_sigkill ::
  "(jsstring \<Rightarrow> kill_env) \<Rightarrow> (jsstring \<times> nat) list \<Rightarrow> SessionManager \<Rightarrow> SessionManager" where
  "shutdown_sigkill env [] w = w"
| "shutdown_sigkill env ((k, r) # ks) w =
     shutdown_sigkill env ks (kill_finish k r (kill_sigkill (env k) r w))"

definition shutdown :: "(jsstring \<Rightarrow> kill_env) \<Rightarrow> SessionManager \<Rightarrow> SessionManager" where
  "shutdown env w =
     (let w0 = log LogShuttingDown w;
          kills = sessions w0;
          w1 = shutdown_begin kills w0;
          w2 = shutdown_wait (\<lambda>k. exit_in_first_wait (env k)) kills w1;
          (waiting, w3) = shutdown_sigterm env kills w2;
          w4 = shutdown_wait (\<lambda>k. exit_in_second_wait (env k)) waiting w3;
          w5 = shutdown_sigkill env waiting w4
      in log LogAllTerminated w5)"

section \<open>Runs of the manager\<close>

text \<open>
  The operations a caller can invoke and the events a process can raise, as one type,
  so that a property of every sequence of them can be stated. Operations that only
  read (\<^verbatim>\<open>getOutput\<close>, \<^verbatim>\<open>getAllOutput\<close>, the two detectors, \<^verbatim>\<open>list\<close>, \<^verbatim>\<open>get\<close>) leave the
  manager as it is and have no step.
\<close>

datatype operation =
    Create nat spawn_result SessionOptions
  | SendText nat jsstring jsstring
  | SendControl nat jsstring jsstring
  | Kill kill_env jsstring
  | IsAlive jsstring
  | UpdateStatus nat jsstring status
  | Shutdown "jsstring \<Rightarrow> kill_env"
  | OnData jsstring nat nat jsstring
  | OnExit nat exit_outcome
  | OnError nat jsstring

fun step :: "operation \<Rightarrow> SessionManager \<Rightarrow> SessionManager" where
  "step (Create now sr opts) w = snd (create now sr opts w)"
| "step (SendText now k text) w = snd (sendText now k text w)"
| "step (SendControl now k char) w = snd (sendControl now k char w)"
| "step (Kill env k) w = kill env k w"
| "step (IsAlive k) w = snd (isAlive k w)"
| "step (UpdateStatus now k st) w = updateStatus now k st w"
| "step (Shutdown env) w = shutdown env w"
| "step (OnData eol now r text) w = on_data eol now r text w"
| "step (OnExit r oc) w = on_exit r oc w"
| "step (OnError r msg) w = on_error r msg w"

fun run :: "operation list \<Rightarrow> SessionManager \<Rightarrow> SessionManager" where
  "run [] w = w"
| "run (op # ops) w = run ops (step op w)"

text \<open>
  Well-formed registries: keys are distinct, every reference points into the heap, and
  the object under a key carries that key as its \<^verbatim>\<open>id\<close>.
\<close>

definition wf :: "SessionManager \<Rightarrow> bool" where
  "wf w = (distinct (map fst (sessions w)) \<and>
           list_all (\<lambda>(k, r). r < length (heap w) \<and> session_id (heap w ! r) = k) (sessions w))"

section \<open>Auxiliary notions for the statements\<close>

text \<open>A sequence of calls of \<^verbatim>\<open>appendOutput\<close> on one session, each with its clock reading.\<close>

fun appendOutputs :: "jsstring \<Rightarrow> (nat \<times> jsstring) list \<Rightarrow> SessionState \<Rightarrow> SessionState" where
  "appendOutputs eol [] state = state"
| "appendOutputs eol ((now, text) # chunks) state =
     appendOutputs eol chunks (appendOutput eol now text state)"

definition pushed_lines :: "jsstring \<Rightarrow> (nat \<times> jsstring) list \<Rightarrow> jsstring list" where
  \<comment> \<open>every line the calls push, in order\<close>
  "pushed_lines eol chunks =
     concat (map (\<lambda>(now, text). with_newlines eol (split_lines text)) chunks)"

definition last_n :: "nat \<Rightarrow> 'a list \<Rightarrow> 'a list" where
  "last_n n xs = drop (length xs - n) xs"

definition heap_ids :: "SessionManager \<Rightarrow> jsstring list" where
  \<comment> \<open>the \<^verbatim>\<open>id\<close> member of every object, by reference\<close>
  "heap_ids w = map session_id (heap w)"

text \<open>
  What a sequence of operations cannot undo. \<open>keeps w w'\<close> says that from \<open>w\<close> to \<open>w'\<close> no
  object is lost, every object that was offline is still offline with the same chunks
  written to its stdin, and every log line is still there. \<open>restores_status\<close> singles
  out the calls of \<^verbatim>\<open>updateStatus\<close> with a status other than offline. \<open>is_done k r\<close> is what
  a finished \<^verbatim>\<open>kill\<close> of key \<open>k\<close> leaves of the object \<open>r\<close>.
\<close>

definition stdin_written :: "SessionState \<Rightarrow> jsstring list option" where
  "stdin_written s = map_option written (stdin (process s))"

definition keeps :: "SessionManager \<Rightarrow> SessionManager \<Rightarrow> bool" where
  "keeps w w' =
     (length (heap w) \<le> length (heap w') \<and>
      (\<forall>r < length (heap w). status (heap w ! r) = offline \<longrightarrow>
          status (heap w' ! r) = offline \<and> stdin_written (heap w' ! r) = stdin_written (heap w ! r)) \<and>
      set (logged w) \<subseteq> set (logged w'))"

fun restores_status :: "operation \<Rightarrow> bool" where
  "restores_status (UpdateStatus now k st) = (st \<noteq> offline)"
| "restores_status _ = False"

definition is_done :: "jsstring \<Rightarrow> nat \<Rightarrow> SessionManager \<Rightarrow> bool" where
  "is_done k r w = (r < length (heap w) \<and> status (heap w ! r) = offline \<and> LogKilled k \<in> set (logged w))"

text \<open>
  \<open>revives r op w\<close>: in the manager \<open>w\<close>, the operation is an \<^verbatim>\<open>updateStatus\<close> with idle or
  working whose id names the object \<open>r\<close>. \<open>never_revived r ops w\<close>: no operation of the
  sequence does so in the manager it runs in. \<open>updates_status_of k\<close> is the same test by
  id alone. \<open>frozen r w w'\<close>: the object \<open>r\<close> is offline in \<open>w'\<close> and its stdin has been
  written no further than in \<open>w\<close>.
\<close>

fun revives :: "nat \<Rightarrow> operation \<Rightarrow> SessionManager \<Rightarrow> bool" where
  "revives r (UpdateStatus now k st) w = (st \<noteq> offline \<and> sessions_get w k = Some r)"
| "revives r _ w = False"

fun never_revived :: "nat \<Rightarrow> operation list \<Rightarrow> SessionManager \<Rightarrow> bool" where
  "never_revived r [] w = True"
| "never_revived r (op # ops) w = (\<not> revives r op w \<and> never_revived r ops (step op w))"

fun updates_status_of :: "jsstring \<Rightarrow> operation \<Rightarrow> bool" where
  "updates_status_of k (UpdateStatus now k' st) = (st \<noteq> offline \<and> k' = k)"
| "updates_status_of k _ = False"

definition frozen :: "nat \<Rightarrow> SessionManager \<Rightarrow> SessionManager \<Rightarrow> bool" where
  "frozen r w w' =
     (r < length (heap w') \<and> status (heap w' ! r) = offline \<and>
      stdin_written (heap w' ! r) = stdin_written (heap w ! r))"

text \<open>
  What \<^verbatim>\<open>kill\<close> does to the object it works on, piece by piece, and as a whole.
\<close>

definition obj_begin :: "SessionState \<Rightarrow> SessionState" where
  "obj_begin s = s\<lparr> process := stdin_end (process s) \<rparr>"

definition obj_wait :: "exit_outcome option \<Rightarrow> SessionState \<Rightarrow> SessionState" where
  "obj_wait ev s =
     (case ev of
        None \<Rightarrow> s
      | Some oc \<Rightarrow> s\<lparr> process := node_exit oc (process s), status := offline \<rparr>)"

definition obj_sigterm :: "kill_env \<Rightarrow> SessionState \<Rightarrow> SessionState" where
  "obj_sigterm env s =
     s\<lparr> process := process_kill (sigterm_delivered env) (js ''SIGTERM'') (process s) \<rparr>"

definition obj_sigkill :: "kill_env \<Rightarrow> SessionState \<Rightarrow> SessionState" where
  "obj_sigkill env s =
     (if \<not> killed (process s)
      then s\<lparr> process := process_kill (sigkill_delivered env) (js ''SIGKILL'') (process s) \<rparr>
      else s)"

definition obj_finish :: "SessionState \<Rightarrow> SessionState" where
  "obj_finish s = s\<lparr> status := offline \<rparr>"

definition kill_object :: "kill_env \<Rightarrow> SessionState \<Rightarrow> SessionState" where
  "kill_object env s =
     (let s1 = obj_wait (exit_in_first_wait env) (obj_begin s)
      in if \<not> killed (process s1)
         then obj_finish (obj_sigkill env (obj_wait (exit_in_second_wait env) (obj_sigterm env s1)))
         else obj_finish s1)"

subsection \<open>A manager with one session, for concrete instances\<close>

definition opts_a :: SessionOptions where
  "opts_a = \<lparr> opt_id = js ''a'', cwd = js ''/tmp'', claudeArgs = [] \<rparr>"

definition world_a :: SessionManager where
  "world_a = snd (create 1 (Spawned 100 True) opts_a new_manager)"

definition state_a :: SessionState where
  "state_a = \<lparr> session_id = js ''a'',
               process = \<lparr> killed = False, exitCode = None, signalCode = None,
                           stdin = Some \<lparr> written = [], ended = False \<rparr>, kill_calls = [] \<rparr>,
               pid = 100, status = idle, outputBuffer = [], createdAt = 1, lastActivity = 1 \<rparr>"

definition env_none :: kill_env where
  \<comment> \<open>the process ignores everything: no exit during the waits, no signal delivered\<close>
  "env_none = \<lparr> exit_in_first_wait = None, sigterm_delivered = False,
                exit_in_second_wait = None, sigkill_delivered = False \<rparr>"

definition chunks3 :: "(nat \<times> jsstring) list" where
  "chunks3 = [(1, js ''one''), (2, js ''two''), (3, js ''three'')]"

text \<open>
  Session \<open>a\<close> after its process has ended, with exit code 0 and by a signal from
  outside, and a sequence of operations in which no \<^verbatim>\<open>updateStatus\<close> to idle or working
  reaches that session: one goes to session \<open>b\<close>, one to the id \<open>a\<close> after the session was
  killed and created anew.
\<close>

definition world_exited :: SessionManager where
  "world_exited = on_exit 0 (ExitCode 0) world_a"

definition world_signalled :: SessionManager where
  "world_signalled = on_exit 0 (ExitSignal (js ''SIGKILL'')) world_a"

definition ops_after_exit :: "operation list" where
  "ops_after_exit = [SendText 3 (js ''a'') (js ''hello''), IsAlive (js ''a''),
                     OnData [LF] 4 0 (js ''late output''), SendControl 5 (js ''a'') (js ''C-c''),
                     UpdateStatus 6 (js ''a'') offline, UpdateStatus 6 (js ''b'') working,
                     Kill env_none (js ''a''), Create 7 (Spawned 101 True) opts_a,
                     UpdateStatus 8 (js ''a'') idle]"

definition ops_other_session :: "operation list" where
  \<comment> \<open>operations on another id only\<close>
  "ops_other_session = [UpdateStatus 9 (js ''b'') working, SendText 10 (js ''b'') (js ''hi'')]"

text \<open>A manager with two running sessions, \<open>a\<close> and \<open>b\<close>.\<close>

definition opts_b :: SessionOptions where
  "opts_b = \<lparr> opt_id = js ''b'', cwd = js ''/tmp'', claudeArgs = [] \<rparr>"

definition state_b :: SessionState where
  "state_b = \<lparr> session_id = js ''b'',
               process = \<lparr> killed = False, exitCode = None, signalCode = None,
                           stdin = Some \<lparr> written = [], ended = False \<rparr>, kill_calls = [] \<rparr>,
               pid = 200, status = idle, outputBuffer = [], createdAt = 2, lastActivity = 2 \<rparr>"

definition world_ab :: SessionManager where
  "world_ab = snd (create 2 (Spawned 200 True) opts_b world_a)"

subsection \<open>The prompt scenarios\<close>

text \<open>
  The lines of the detection scenario, the two negative variants, and managers whose
  session \<open>a\<close> has received them: \<open>world_lines\<close> as one chunk of output with the lines
  joined by the line ending (so the buffer holds them as \<^verbatim>\<open>appendOutput\<close> stores lines),
  \<open>world_raw\<close> as one chunk per line with no line ending at all.
\<close>

definition scenario_lines :: "jsstring list" where
  "scenario_lines = [js ''Bash(ls -la)'', js '''', js ''Do you want to proceed?'',
                     CURSOR # js '' 1. Yes'', js ''  2. No'', js ''Esc to cancel'']"

definition scenario_unmarked_lines :: "jsstring list" where
  "scenario_unmarked_lines = [js ''Bash(ls -la)'', js '''', js ''Do you want to proceed?'',
                              js ''  2. No'']"

definition scenario_single_lines :: "jsstring list" where
  "scenario_single_lines = [js ''Do you want to proceed?'', CURSOR # js '' 1. Yes'',
                            js ''Esc to cancel'']"

definition scenario_prompt :: PermissionPrompt where
  "scenario_prompt = \<lparr> tool = js ''Unknown'',
                        prompt_context = join [LF] (take 5 scenario_lines),
                        options = [(js ''1'', js ''Yes''), (js ''2'', js ''No'')] \<rparr>"

definition world_lines :: "jsstring \<Rightarrow> jsstring list \<Rightarrow> SessionManager" where
  "world_lines eol ls = on_data eol 2 0 (join eol ls) world_a"

definition world_raw :: "jsstring list \<Rightarrow> SessionManager" where
  "world_raw ls = run (map (\<lambda>l. OnData [LF] 2 0 l) ls) world_a"

section \<open>Basic facts\<close>

text \<open>
  The counter of the greedy star never cuts a match short: any counter at least the
  length of the input left gives the same results.
\<close>

lemma star_greedy_Suc:
  "length (fst (snd st)) \<le> n \<Longrightarrow> star_greedy m (Suc n) st = star_greedy m n st"
proof (induction n arbitrary: st)
  case 0
  then show ?case by (simp add: concat_eq_Nil_conv)
next
  case (Suc n)
  have "star_greedy m (Suc n) st' = star_greedy m n st'"
    if "length (fst (snd st')) < length (fst (snd st))" for st'
    using that Suc.prems by (intro Suc.IH) simp
  then have eq: "map (\<lambda>st'. if length (fst (snd st')) < length (fst (snd st))
                         then star_greedy m (Suc n) st' else []) (m st) =
             map (\<lambda>st'. if length (fst (snd st')) < length (fst (snd st))
                         then star_greedy m n st' else []) (m st)"
    by (intro map_cong) simp_all
  have L: "star_greedy m (Suc (Suc n)) st =
      concat (map (\<lambda>st'. if length (fst (snd st')) < length (fst (snd st))
                         then star_greedy m (Suc n) st' else []) (m st)) @ [st]"
    by (rule star_greedy.simps(2))
  have R: "star_greedy m (Suc n) st =
      concat (map (\<lambda>st'. if length (fst (snd st')) < length (fst (snd st))
                         then star_greedy m n st' else []) (m st)) @ [st]"
    by (rule star_greedy.simps(2))
  show ?case by (simp only: L R eq)
qed

lemma star_greedy_fuel:
  "length (fst (snd st)) \<le> n \<Longrightarrow> star_greedy m n st = star_greedy m (length (fst (snd st))) st"
proof (induction n)
  case 0
  then show ?case by simp
next
  case (Suc n)
  show ?case
  proof (cases "length (fst (snd st)) = Suc n")
    case True
    then show ?thesis by simp
  next
    case False
    with Suc.prems have le: "length (fst (snd st)) \<le> n" by simp
    from star_greedy_Suc[OF le] Suc.IH[OF le] show ?thesis by simp
  qed
qed

lemma sessions_log [simp]: "sessions (log e w) = sessions w"
  by (simp add: log_def)

lemma heap_log [simp]: "heap (log e w) = heap w"
  by (simp add: log_def)

lemma spawned_log [simp]: "spawned (log e w) = spawned w"
  by (simp add: log_def)

lemma logged_log [simp]: "logged (log e w) = logged w @ [e]"
  by (simp add: log_def)

lemma sessions_modify [simp]: "sessions (modify r f w) = sessions w"
  by (simp add: modify_def)

lemma logged_modify [simp]: "logged (modify r f w) = logged w"
  by (simp add: modify_def)

lemma spawned_modify [simp]: "spawned (modify r f w) = spawned w"
  by (simp add: modify_def)

lemma heap_modify [simp]: "heap (modify r f w) = (heap w)[r := f (heap w ! r)]"
  by (simp add: modify_def)

lemma deref_log [simp]: "deref (log e w) r = deref w r"
  by (simp add: deref_def)

lemma sessions_get_log [simp]: "sessions_get (log e w) k = sessions_get w k"
  by (simp add: sessions_get_def)

lemma sessions_get_modify [simp]: "sessions_get (modify r f w) k = sessions_get w k"
  by (simp add: sessions_get_def)

lemma deref_modify_same: "r < length (heap w) \<Longrightarrow> deref (modify r f w) r = f (deref w r)"
  by (simp add: deref_def)

lemma deref_modify_other: "r' \<noteq> r \<Longrightarrow> deref (modify r' f w) r = deref w r"
  by (simp add: deref_def)

lemma heap_ids_modify:
  "(\<And>s. session_id (f s) = session_id s) \<Longrightarrow> heap_ids (modify r f w) = heap_ids w"
  by (simp add: heap_ids_def map_update) (metis list_update_id map_update nth_map list_update_beyond not_le_imp_less)

lemma heap_ids_log [simp]: "heap_ids (log e w) = heap_ids w"
  by (simp add: heap_ids_def)

lemma last_n_append_last_n: "last_n n (last_n n xs @ ys) = last_n n (xs @ ys)"
proof (cases "length xs \<le> n")
  case True
  then show ?thesis by (simp add: last_n_def)
next
  case False
  then have "length xs + length ys - n = (length xs - n) + length ys" by simp
  with False show ?thesis by (simp add: last_n_def add.commute)
qed

lemma slice_from_neg: "0 < n \<Longrightarrow> slice_from (- int n) xs = last_n n xs"
proof -
  assume "0 < n"
  moreover have "nat (max (int (length xs) - int n) 0) = length xs - n" by simp
  ultimately show ?thesis
    by (simp add: slice_from_def Let_def last_n_def)
qed

lemma last_n_short: "length xs \<le> n \<Longrightarrow> last_n n xs = xs"
  by (simp add: last_n_def)

lemma length_last_n: "length (last_n n xs) \<le> n"
  by (simp add: last_n_def)

lemma appendOutput_buffer:
  "outputBuffer (appendOutput eol now text state) =
     last_n 200 (outputBuffer state @ with_newlines eol (split_lines text))"
  using slice_from_neg[of 200 "outputBuffer state @ with_newlines eol (split_lines text)"]
  by (simp add: appendOutput_def Let_def MAX_OUTPUT_LINES_def last_n_short)

lemma appendOutputs_buffer:
  "length (outputBuffer state) \<le> 200 \<Longrightarrow>
   outputBuffer (appendOutputs eol chunks state) =
     last_n 200 (outputBuffer state @ pushed_lines eol chunks)"
proof (induction chunks arbitrary: state)
  case Nil
  then show ?case by (simp add: pushed_lines_def last_n_short)
next
  case (Cons c chunks)
  obtain n t where c: "c = (n, t)" by (cases c)
  have "length (outputBuffer (appendOutput eol n t state)) \<le> 200"
    by (simp add: appendOutput_buffer length_last_n)
  from Cons.IH[OF this] show ?case
    by (simp add: c appendOutput_buffer last_n_append_last_n pushed_lines_def)
qed

lemma split_lines_acc_single: "LF \<notin> set t \<Longrightarrow> split_lines_acc acc t = [rev acc @ t]"
  by (induction acc t rule: split_lines_acc.induct) auto

lemma single_line: "LF \<notin> set t \<Longrightarrow> with_newlines eol (split_lines t) = [t]"
  by (simp add: split_lines_def split_lines_acc_single)

lemma pushed_single_lines:
  "list_all (\<lambda>(now, t). LF \<notin> set t) chunks \<Longrightarrow> pushed_lines eol chunks = map snd chunks"
  by (induction chunks) (auto simp: pushed_lines_def single_line)

lemma appendOutput_id [simp]: "session_id (appendOutput eol now t s) = session_id s"
  by (simp add: appendOutput_def Let_def)

lemma heap_ids_on_data [simp]: "heap_ids (on_data eol now r t w) = heap_ids w"
  by (simp add: on_data_def heap_ids_modify)

lemma heap_ids_on_exit [simp]: "heap_ids (on_exit r oc w) = heap_ids w"
  by (simp add: on_exit_def heap_ids_modify)

lemma heap_ids_on_error [simp]: "heap_ids (on_error r m w) = heap_ids w"
  by (simp add: on_error_def heap_ids_modify)

lemma sessions_on_data [simp]: "sessions (on_data eol now r t w) = sessions w"
  by (simp add: on_data_def)

lemma sessions_on_exit [simp]: "sessions (on_exit r oc w) = sessions w"
  by (simp add: on_exit_def)

lemma sessions_on_error [simp]: "sessions (on_error r m w) = sessions w"
  by (simp add: on_error_def)

lemma heap_ids_kill_begin [simp]: "heap_ids (kill_begin k r w) = heap_ids w"
  by (simp add: kill_begin_def heap_ids_modify)

lemma heap_ids_kill_wait [simp]: "heap_ids (kill_wait ev r w) = heap_ids w"
  by (simp add: kill_wait_def split: option.splits)

lemma heap_ids_kill_sigterm [simp]: "heap_ids (kill_sigterm env r w) = heap_ids w"
  by (simp add: kill_sigterm_def heap_ids_modify)

lemma heap_ids_kill_sigkill [simp]: "heap_ids (kill_sigkill env r w) = heap_ids w"
  by (simp add: kill_sigkill_def heap_ids_modify)

lemma heap_ids_kill_finish [simp]: "heap_ids (kill_finish k r w) = heap_ids w"
  using heap_ids_modify[of "\<lambda>state. state\<lparr>status := offline\<rparr>" r w]
  by (simp add: kill_finish_def heap_ids_def)

lemma sessions_kill_begin [simp]: "sessions (kill_begin k r w) = sessions w"
  by (simp add: kill_begin_def)

lemma sessions_kill_wait [simp]: "sessions (kill_wait ev r w) = sessions w"
  by (simp add: kill_wait_def split: option.splits)

lemma sessions_kill_sigterm [simp]: "sessions (kill_sigterm env r w) = sessions w"
  by (simp add: kill_sigterm_def)

lemma sessions_kill_sigkill [simp]: "sessions (kill_sigkill env r w) = sessions w"
  by (simp add: kill_sigkill_def)

lemma sessions_kill_finish [simp]:
  "sessions (kill_finish k r w) = sessions_delete k (sessions w)"
  by (simp add: kill_finish_def)

lemma sessions_kill:
  "sessions (kill env k w) = sessions_delete k (sessions w)"
proof (cases "sessions_get w k")
  case None
  then have "k \<notin> fst ` set (sessions w)"
    by (simp add: sessions_get_def map_of_eq_None_iff)
  then have "sessions_delete k (sessions w) = sessions w"
    by (force simp: sessions_delete_def filter_id_conv)
  with None show ?thesis by (simp add: kill_def)
next
  case (Some r)
  then show ?thesis by (simp add: kill_def Let_def)
qed

lemma heap_ids_kill [simp]: "heap_ids (kill env k w) = heap_ids w"
  by (simp add: kill_def Let_def split: option.splits)

lemma map_of_sessions_delete [simp]: "map_of (sessions_delete k m) k = None"
  by (induction m) (auto simp: sessions_delete_def)

lemma status_kill_finish:
  "r < length (heap w) \<Longrightarrow> status (deref (kill_finish k r w) r) = offline"
  by (simp add: kill_finish_def deref_def)

lemma length_heap_ids: "length (heap_ids w) = length (heap w)"
  by (simp add: heap_ids_def)

lemma length_heap_kill_pieces [simp]:
  "length (heap (kill_begin k r w)) = length (heap w)"
  "length (heap (kill_wait ev r w)) = length (heap w)"
  "length (heap (kill_sigterm env r w)) = length (heap w)"
  "length (heap (kill_sigkill env r w)) = length (heap w)"
  "length (heap (kill_finish k r w)) = length (heap w)"
  by (metis length_heap_ids heap_ids_kill_begin heap_ids_kill_wait heap_ids_kill_sigterm
        heap_ids_kill_sigkill heap_ids_kill_finish)+

lemma status_kill:
  "sessions_get w k = Some r \<Longrightarrow> r < length (heap w) \<Longrightarrow> status (deref (kill env k w) r) = offline"
  by (simp add: kill_def Let_def status_kill_finish)

lemma session_id_deref: "r < length (heap w) \<Longrightarrow> session_id (deref w r) = heap_ids w ! r"
  by (simp add: deref_def heap_ids_def)

lemma wf_alt:
  "wf w = (distinct (map fst (sessions w)) \<and>
           (\<forall>(k, r) \<in> set (sessions w). r < length (heap w) \<and> heap_ids w ! r = k))"
  by (auto simp: wf_def list_all_iff heap_ids_def)

lemma world_a_eq:
  "world_a = \<lparr> sessions = [(js ''a'', 0)], heap = [state_a],
               spawned = [(default_args, js ''/tmp'')],
               logged = [LogCreating (js ''a'') (js ''/tmp''), LogStarted (js ''a'') 100] \<rparr>"
  by (simp add: world_a_def create_def opts_a_def new_manager_def sessions_get_def log_def
        state_a_def Let_def)

lemma get_a: "sessions_get world_a (js ''a'') = Some 0"
  by (simp add: world_a_eq sessions_get_def)

lemma get_b: "sessions_get world_a (js ''b'') = None"
  by (simp add: world_a_eq sessions_get_def js_def)

lemma wf_a: "wf world_a"
  by (simp add: world_a_eq wf_def state_a_def)

lemma keeps_refl [simp]: "keeps w w"
  by (simp add: keeps_def)

lemma keeps_trans:
  assumes "keeps w w'" and "keeps w' w''"
  shows "keeps w w''"
proof -
  have l1: "length (heap w) \<le> length (heap w')" and l2: "length (heap w') \<le> length (heap w'')"
    and g1: "set (logged w) \<subseteq> set (logged w')" and g2: "set (logged w') \<subseteq> set (logged w'')"
    using assms by (simp_all add: keeps_def)
  have s1: "status (heap w' ! r) = offline \<and> stdin_written (heap w' ! r) = stdin_written (heap w ! r)"
    if "r < length (heap w)" "status (heap w ! r) = offline" for r
    using assms(1) that by (simp add: keeps_def)
  have s2: "status (heap w'' ! r) = offline \<and> stdin_written (heap w'' ! r) = stdin_written (heap w' ! r)"
    if "r < length (heap w')" "status (heap w' ! r) = offline" for r
    using assms(2) that by (simp add: keeps_def)
  have s: "status (heap w'' ! r) = offline \<and> stdin_written (heap w'' ! r) = stdin_written (heap w ! r)"
    if r: "r < length (heap w)" and o: "status (heap w ! r) = offline" for r
  proof -
    from r l1 have r': "r < length (heap w')" by simp
    from s1[OF r o] s2[OF r'] show ?thesis by simp
  qed
  from l1 l2 have "length (heap w) \<le> length (heap w'')" by simp
  moreover from g1 g2 have "set (logged w) \<subseteq> set (logged w'')" by (rule subset_trans)
  ultimately show ?thesis using s by (simp add: keeps_def)
qed

lemma keeps_log [simp]: "keeps w (log e w)"
  by (auto simp: keeps_def)

lemma keeps_modify:
  assumes "r' < length (heap w) \<Longrightarrow> status (heap w ! r') = offline \<Longrightarrow>
      status (f (heap w ! r')) = offline \<and> stdin_written (f (heap w ! r')) = stdin_written (heap w ! r')"
  shows "keeps w (modify r' f w)"
proof -
  have "status ((heap w)[r' := f (heap w ! r')] ! r) = offline \<and>
        stdin_written ((heap w)[r' := f (heap w ! r')] ! r) = stdin_written (heap w ! r)"
    if r: "r < length (heap w)" and o: "status (heap w ! r) = offline" for r
  proof (cases "r = r'")
    case True
    with r o assms show ?thesis by simp
  next
    case False
    with o show ?thesis by simp
  qed
  then show ?thesis by (simp add: keeps_def)
qed

lemma keeps_sessions_upd [simp]: "keeps w (w'\<lparr>sessions := m\<rparr>) = keeps w w'"
  by (simp add: keeps_def)

lemma keeps_heap_append:
  "heap w' = heap w @ xs \<Longrightarrow> set (logged w) \<subseteq> set (logged w') \<Longrightarrow> keeps w w'"
  by (simp add: keeps_def nth_append)

lemma keeps_create: "keeps w (snd (create now sr opts w))"
proof (cases "sessions_get w (opt_id opts) \<noteq> None")
  case True
  then show ?thesis by (simp add: create_def)
next
  case False
  show ?thesis
  proof (cases sr)
    case NoPid
    have "keeps w (snd (create now NoPid opts w))"
      by (rule keeps_heap_append[where xs = "[]"])
         (use False in \<open>simp_all add: create_def Let_def log_def subset_insertI2\<close>)
    with NoPid show ?thesis by simp
  next
    case (Spawned p has_stdin)
    have "\<exists>xs. heap (snd (create now (Spawned p has_stdin) opts w)) = heap w @ xs"
      using False by (simp add: create_def Let_def log_def)
    moreover have "set (logged w) \<subseteq> set (logged (snd (create now (Spawned p has_stdin) opts w)))"
      using False by (simp add: create_def Let_def log_def subset_insertI2)
    ultimately show ?thesis
      using Spawned by (auto intro: keeps_heap_append)
  qed
qed

lemma keeps_log_modify:
  "(r' < length (heap w) \<Longrightarrow> status (heap w ! r') = offline \<Longrightarrow>
      status (f (heap w ! r')) = offline \<and> stdin_written (f (heap w ! r')) = stdin_written (heap w ! r'))
   \<Longrightarrow> keeps w (modify r' f (log e w))"
  by (rule keeps_trans[OF keeps_log]) (rule keeps_modify, simp)

lemma keeps_sendText: "keeps w (snd (sendText now k t w))"
proof (cases "sessions_get w k")
  case None
  then show ?thesis by (simp add: sendText_def)
next
  case (Some r)
  show ?thesis
  proof (cases "status (deref w r) = offline \<or> stdin (process (deref w r)) = None")
    case True
    with Some show ?thesis by (simp add: sendText_def)
  next
    case False
    then have "status (heap w ! r) \<noteq> offline" by (simp add: deref_def)
    then have "keeps w (modify r (\<lambda>state. state\<lparr>process := stdin_write (t @ [LF]) (process state),
        lastActivity := now\<rparr>) (log (LogSendingText k (take 50 t)) w))"
      by (intro keeps_log_modify) simp
    with Some False show ?thesis by (simp add: sendText_def)
  qed
qed

lemma keeps_sendControl: "keeps w (snd (sendControl now k c w))"
proof (cases "sessions_get w k")
  case None
  then show ?thesis by (simp add: sendControl_def)
next
  case (Some r)
  show ?thesis
  proof (cases "status (deref w r) = offline \<or> stdin (process (deref w r)) = None")
    case True
    with Some show ?thesis by (simp add: sendControl_def)
  next
    case False
    then have ne: "status (heap w ! r) \<noteq> offline" by (simp add: deref_def)
    have "\<And>x. keeps w (modify r (\<lambda>state. state\<lparr>process := stdin_write x (process state),
        lastActivity := now\<rparr>) (log (LogSendingControl k c) w))"
      using ne by (intro keeps_log_modify) simp
    with Some False show ?thesis
      by (simp add: sendControl_def split: js_prop.splits)
  qed
qed

lemma keeps_isAlive: "keeps w (snd (isAlive k w))"
  by (simp add: isAlive_def stdin_written_def keeps_modify split: option.splits)

lemma keeps_updateStatus: "keeps w (updateStatus now k offline w)"
  by (simp add: updateStatus_def stdin_written_def keeps_modify split: option.splits)

lemma keeps_on_data: "keeps w (on_data eol now r t w)"
  by (simp add: on_data_def appendOutput_def Let_def stdin_written_def keeps_modify)

lemma keeps_on_exit: "keeps w (on_exit r oc w)"
proof -
  let ?w1 = "modify r (\<lambda>state. state\<lparr>process := node_exit oc (process state)\<rparr>) w"
  have 1: "keeps w ?w1"
    by (rule keeps_modify) (simp add: stdin_written_def node_exit_def split: exit_outcome.splits)
  have 2: "keeps ?w1 (modify r (\<lambda>state. state\<lparr>status := offline\<rparr>)
             (log (LogExited (session_id (deref w r)) (exit_code_of oc)) ?w1))"
    by (rule keeps_log_modify) (simp add: stdin_written_def)
  from keeps_trans[OF 1 2] show ?thesis by (simp add: on_exit_def)
qed

lemma keeps_on_error: "keeps w (on_error r m w)"
  by (simp add: on_error_def keeps_log_modify stdin_written_def)

lemma keeps_kill_begin: "keeps w (kill_begin k r w)"
  unfolding kill_begin_def
  by (rule keeps_log_modify) (simp add: stdin_written_def stdin_end_def option.map_comp comp_def)

lemma keeps_kill_wait: "keeps w (kill_wait ev r w)"
  by (simp add: kill_wait_def keeps_on_exit split: option.splits)

lemma keeps_kill_sigterm: "keeps w (kill_sigterm env r w)"
  unfolding kill_sigterm_def
  by (rule keeps_modify) (simp add: stdin_written_def process_kill_def)

lemma keeps_kill_sigkill: "keeps w (kill_sigkill env r w)"
  by (simp add: kill_sigkill_def keeps_modify stdin_written_def process_kill_def)

lemma keeps_kill_finish: "keeps w (kill_finish k r w)"
proof -
  have "keeps w (modify r (\<lambda>state. state\<lparr>status := offline\<rparr>) w)"
    by (rule keeps_modify) (simp add: stdin_written_def)
  then have "keeps w (modify r (\<lambda>state. state\<lparr>status := offline\<rparr>) w
                 \<lparr>sessions := sessions_delete k (sessions w)\<rparr>)"
    by simp
  from keeps_trans[OF this keeps_log] show ?thesis by (simp add: kill_finish_def)
qed

lemma keeps_kill: "keeps w (kill env k w)"
proof (cases "sessions_get w k")
  case None
  then show ?thesis by (simp add: kill_def)
next
  case (Some r)
  let ?w1 = "kill_wait (exit_in_first_wait env) r (kill_begin k r w)"
  have 1: "keeps w ?w1"
    by (rule keeps_trans[OF keeps_kill_begin keeps_kill_wait])
  have 2: "keeps ?w1 (kill_finish k r ?w1)" by (rule keeps_kill_finish)
  have 3: "keeps ?w1 (kill_finish k r (kill_sigkill env r
             (kill_wait (exit_in_second_wait env) r (kill_sigterm env r ?w1))))"
    by (rule keeps_trans[OF keeps_kill_sigterm
          keeps_trans[OF keeps_kill_wait keeps_trans[OF keeps_kill_sigkill keeps_kill_finish]]])
  from Some keeps_trans[OF 1 2] keeps_trans[OF 1 3] show ?thesis
    by (simp add: kill_def Let_def)
qed

lemma keeps_shutdown_begin: "keeps w (shutdown_begin ks w)"
proof (induction ks arbitrary: w)
  case Nil
  show ?case by simp
next
  case (Cons a ks)
  obtain k r where a: "a = (k, r)" by (cases a)
  from keeps_trans[OF keeps_kill_begin Cons.IH] show ?case by (simp add: a)
qed

lemma keeps_shutdown_wait: "keeps w (shutdown_wait ev ks w)"
proof (induction ks arbitrary: w)
  case Nil
  show ?case by simp
next
  case (Cons a ks)
  obtain k r where a: "a = (k, r)" by (cases a)
  from keeps_trans[OF keeps_kill_wait Cons.IH] show ?case by (simp add: a)
qed

lemma snd_shutdown_sigterm_Cons:
  "snd (shutdown_sigterm env ((k, r) # ks) w) =
     (if \<not> killed (process (deref w r))
      then snd (shutdown_sigterm env ks (kill_sigterm (env k) r w))
      else snd (shutdown_sigterm env ks (kill_finish k r w)))"
  by (simp split: prod.splits)

lemma fst_shutdown_sigterm_Cons:
  "fst (shutdown_sigterm env ((k, r) # ks) w) =
     (if \<not> killed (process (deref w r))
      then (k, r) # fst (shutdown_sigterm env ks (kill_sigterm (env k) r w))
      else fst (shutdown_sigterm env ks (kill_finish k r w)))"
  by (simp split: prod.splits)

lemma keeps_shutdown_sigterm: "keeps w (snd (shutdown_sigterm env ks w))"
proof (induction ks arbitrary: w)
  case Nil
  show ?case by simp
next
  case (Cons a ks)
  obtain k r where a: "a = (k, r)" by (cases a)
  show ?case
  proof (cases "killed (process (deref w r))")
    case True
    from keeps_trans[OF keeps_kill_finish[of w k r] Cons.IH[of "kill_finish k r w"]] True
    show ?thesis by (simp only: a snd_shutdown_sigterm_Cons) simp
  next
    case False
    from keeps_trans[OF keeps_kill_sigterm[of w "env k" r] Cons.IH[of "kill_sigterm (env k) r w"]]
      False
    show ?thesis by (simp only: a snd_shutdown_sigterm_Cons) simp
  qed
qed

lemma keeps_shutdown_sigkill: "keeps w (shutdown_sigkill env ks w)"
proof (induction ks arbitrary: w)
  case Nil
  show ?case by simp
next
  case (Cons a ks)
  obtain k r where a: "a = (k, r)" by (cases a)
  from keeps_trans[OF keeps_trans[OF keeps_kill_sigkill keeps_kill_finish] Cons.IH]
  show ?case by (simp add: a)
qed

lemma shutdown_unfold:
  "shutdown env w =
     log LogAllTerminated
       (shutdown_sigkill env (fst (shutdown_sigterm env (sessions w)
            (shutdown_wait (\<lambda>k. exit_in_first_wait (env k)) (sessions w)
               (shutdown_begin (sessions w) (log LogShuttingDown w)))))
          (shutdown_wait (\<lambda>k. exit_in_second_wait (env k))
             (fst (shutdown_sigterm env (sessions w)
               (shutdown_wait (\<lambda>k. exit_in_first_wait (env k)) (sessions w)
                  (shutdown_begin (sessions w) (log LogShuttingDown w)))))
             (snd (shutdown_sigterm env (sessions w)
               (shutdown_wait (\<lambda>k. exit_in_first_wait (env k)) (sessions w)
                  (shutdown_begin (sessions w) (log LogShuttingDown w)))))))"
  by (simp add: shutdown_def Let_def split: prod.splits)

lemma keeps_shutdown: "keeps w (shutdown env w)"
  unfolding shutdown_unfold
  by (rule keeps_trans[OF keeps_log keeps_trans[OF keeps_shutdown_begin
        keeps_trans[OF keeps_shutdown_wait keeps_trans[OF keeps_shutdown_sigterm
          keeps_trans[OF keeps_shutdown_wait keeps_trans[OF keeps_shutdown_sigkill keeps_log]]]]]])

lemma keeps_step: "\<not> restores_status op \<Longrightarrow> keeps w (step op w)"
  by (cases op)
     (simp_all add: keeps_create keeps_sendText keeps_sendControl keeps_kill keeps_isAlive
        keeps_updateStatus keeps_shutdown keeps_on_data keeps_on_exit keeps_on_error)

lemma keeps_run: "list_all (\<lambda>op. \<not> restores_status op) ops \<Longrightarrow> keeps w (run ops w)"
proof (induction ops arbitrary: w)
  case Nil
  show ?case by simp
next
  case (Cons op ops)
  then have "keeps w (step op w)" and "keeps (step op w) (run ops (step op w))"
    by (simp_all add: keeps_step)
  then show ?case by (simp add: keeps_trans)
qed

lemma sendText_offline:
  "sessions_get w k = Some r \<Longrightarrow> status (deref w r) = offline \<Longrightarrow>
     sendText now k t w = (Inl OfflineError, w)"
  by (simp add: sendText_def)

lemma sendControl_offline:
  "sessions_get w k = Some r \<Longrightarrow> status (deref w r) = offline \<Longrightarrow>
     sendControl now k c w = (Inl OfflineError, w)"
  by (simp add: sendControl_def)

lemma updateStatus_sets:
  "sessions_get w k = Some r \<Longrightarrow> r < length (heap w) \<Longrightarrow>
     status (deref (updateStatus now k st w) r) = st"
  by (simp add: updateStatus_def deref_def)

lemma keeps_length: "keeps w w' \<Longrightarrow> r < length (heap w) \<Longrightarrow> r < length (heap w')"
  by (simp add: keeps_def)

lemma done_keeps: "keeps w w' \<Longrightarrow> is_done k r w \<Longrightarrow> is_done k r w'"
  by (auto simp: keeps_def is_done_def)

lemma done_kill_finish: "r < length (heap w) \<Longrightarrow> is_done k r (kill_finish k r w)"
  by (simp add: is_done_def kill_finish_def)

lemma set_sessions_delete: "set (sessions_delete k m) = {p \<in> set m. fst p \<noteq> k}"
  by (auto simp: sessions_delete_def)

lemma keys_kill_finish:
  "fst ` set (sessions (kill_finish k r w)) = fst ` set (sessions w) - {k}"
  by (auto simp: kill_finish_def set_sessions_delete)

lemma sessions_shutdown_begin [simp]: "sessions (shutdown_begin ks w) = sessions w"
  by (induction ks arbitrary: w) auto

lemma sessions_shutdown_wait [simp]: "sessions (shutdown_wait ev ks w) = sessions w"
  by (induction ks arbitrary: w) (auto simp: kill_wait_def on_exit_def split: option.splits)

lemma keys_shutdown_sigterm:
  "fst ` set (sessions (snd (shutdown_sigterm env ks w))) \<subseteq>
     (fst ` set (sessions w) - fst ` set ks) \<union> fst ` set (fst (shutdown_sigterm env ks w))"
proof (induction ks arbitrary: w)
  case Nil
  show ?case by simp
next
  case (Cons a ks)
  obtain k r where a: "a = (k, r)" by (cases a)
  show ?case
  proof (cases "killed (process (deref w r))")
    case True
    have "fst ` set (sessions (kill_finish k r w)) = fst ` set (sessions w) - {k}"
      by (rule keys_kill_finish)
    with Cons.IH[of "kill_finish k r w"] True show ?thesis
      unfolding a snd_shutdown_sigterm_Cons fst_shutdown_sigterm_Cons by auto
  next
    case False
    have "sessions (kill_sigterm (env k) r w) = sessions w"
      by (simp add: kill_sigterm_def)
    with Cons.IH[of "kill_sigterm (env k) r w"] False show ?thesis
      unfolding a snd_shutdown_sigterm_Cons fst_shutdown_sigterm_Cons by auto
  qed
qed

lemma keys_shutdown_sigkill:
  "fst ` set (sessions (shutdown_sigkill env ks w)) \<subseteq> fst ` set (sessions w) - fst ` set ks"
proof (induction ks arbitrary: w)
  case Nil
  show ?case by simp
next
  case (Cons a ks)
  obtain k r where a: "a = (k, r)" by (cases a)
  have "fst ` set (sessions (kill_finish k r (kill_sigkill (env k) r w))) = fst ` set (sessions w) - {k}"
    using keys_kill_finish[of k r "kill_sigkill (env k) r w"] by simp
  with Cons.IH[of "kill_finish k r (kill_sigkill (env k) r w)"] show ?case
    by (auto simp: a)
qed

lemma subset_diff_empty: "A \<subseteq> B - C \<Longrightarrow> B \<subseteq> C \<Longrightarrow> A = {}"
  by blast

lemma sessions_shutdown: "sessions (shutdown env w) = []"
proof -
  let ?w2 = "shutdown_wait (\<lambda>k. exit_in_first_wait (env k)) (sessions w)
               (shutdown_begin (sessions w) (log LogShuttingDown w))"
  let ?waiting = "fst (shutdown_sigterm env (sessions w) ?w2)"
  let ?w3 = "snd (shutdown_sigterm env (sessions w) ?w2)"
  let ?w4 = "shutdown_wait (\<lambda>k. exit_in_second_wait (env k)) ?waiting ?w3"
  have "sessions ?w2 = sessions w" by simp
  with keys_shutdown_sigterm[of env "sessions w" ?w2]
  have "fst ` set (sessions ?w3) \<subseteq> fst ` set ?waiting" by auto
  then have "fst ` set (sessions ?w4) \<subseteq> fst ` set ?waiting" by simp
  from subset_diff_empty[OF keys_shutdown_sigkill[of env ?waiting ?w4] this]
  have "sessions (shutdown_sigkill env ?waiting ?w4) = []" by simp
  then show ?thesis by (simp only: shutdown_unfold sessions_log)
qed

lemma shutdown_empty: "sessions w = [] \<Longrightarrow> shutdown env w = log LogAllTerminated (log LogShuttingDown w)"
  by (simp add: shutdown_def)

lemma done_shutdown_sigkill:
  "(k, r) \<in> set ks \<Longrightarrow> r < length (heap w) \<Longrightarrow> is_done k r (shutdown_sigkill env ks w)"
proof (induction ks arbitrary: w)
  case Nil
  then show ?case by simp
next
  case (Cons a ks)
  obtain k' r' where a: "a = (k', r')" by (cases a)
  let ?w' = "kill_finish k' r' (kill_sigkill (env k') r' w)"
  have kp: "keeps w ?w'" by (rule keeps_trans[OF keeps_kill_sigkill keeps_kill_finish])
  show ?case
  proof (cases "a = (k, r)")
    case True
    from Cons.prems(2) have "r < length (heap (kill_sigkill (env k) r w))"
      by (rule keeps_length[OF keeps_kill_sigkill])
    then have "is_done k r (kill_finish k r (kill_sigkill (env k) r w))"
      by (rule done_kill_finish)
    from done_keeps[OF keeps_shutdown_sigkill this] True a show ?thesis by simp
  next
    case False
    with Cons.prems have "(k, r) \<in> set ks" by simp
    from Cons.IH[OF this keeps_length[OF kp Cons.prems(2)]] show ?thesis by (simp add: a)
  qed
qed

lemma done_shutdown_sigterm:
  "(k, r) \<in> set ks \<Longrightarrow> r < length (heap w) \<Longrightarrow>
     (k, r) \<in> set (fst (shutdown_sigterm env ks w)) \<or> is_done k r (snd (shutdown_sigterm env ks w))"
proof (induction ks arbitrary: w)
  case Nil
  then show ?case by simp
next
  case (Cons a ks)
  obtain k' r' where a: "a = (k', r')" by (cases a)
  show ?case
  proof (cases "killed (process (deref w r'))")
    case True
    show ?thesis
    proof (cases "a = (k, r)")
      case eq: True
      from Cons.prems(2) have "is_done k r (kill_finish k r w)" by (rule done_kill_finish)
      from done_keeps[OF keeps_shutdown_sigterm this] True eq a show ?thesis
        by (simp only: snd_shutdown_sigterm_Cons) simp
    next
      case False
      with Cons.prems have "(k, r) \<in> set ks" by simp
      from Cons.IH[OF this keeps_length[OF keeps_kill_finish Cons.prems(2)]] True
      show ?thesis by (simp only: a snd_shutdown_sigterm_Cons fst_shutdown_sigterm_Cons) simp
    qed
  next
    case nk: False
    show ?thesis
    proof (cases "a = (k, r)")
      case True
      with nk a show ?thesis by (simp only: fst_shutdown_sigterm_Cons) simp
    next
      case False
      with Cons.prems have "(k, r) \<in> set ks" by simp
      from Cons.IH[OF this keeps_length[OF keeps_kill_sigterm Cons.prems(2)]] nk
      show ?thesis by (simp only: a snd_shutdown_sigterm_Cons fst_shutdown_sigterm_Cons) simp
    qed
  qed
qed

lemma done_shutdown:
  assumes "(k, r) \<in> set (sessions w)" and "r < length (heap w)"
  shows "is_done k r (shutdown env w)"
proof -
  let ?w2 = "shutdown_wait (\<lambda>k. exit_in_first_wait (env k)) (sessions w)
               (shutdown_begin (sessions w) (log LogShuttingDown w))"
  let ?waiting = "fst (shutdown_sigterm env (sessions w) ?w2)"
  let ?w3 = "snd (shutdown_sigterm env (sessions w) ?w2)"
  let ?w4 = "shutdown_wait (\<lambda>k. exit_in_second_wait (env k)) ?waiting ?w3"
  let ?w5 = "shutdown_sigkill env ?waiting ?w4"
  have k2: "keeps w ?w2"
    by (rule keeps_trans[OF keeps_log keeps_trans[OF keeps_shutdown_begin keeps_shutdown_wait]])
  have k4: "keeps ?w2 ?w4"
    by (rule keeps_trans[OF keeps_shutdown_sigterm keeps_shutdown_wait])
  from done_shutdown_sigterm[OF assms(1) keeps_length[OF k2 assms(2)], of env]
  have "is_done k r ?w5"
  proof
    assume "(k, r) \<in> set ?waiting"
    from done_shutdown_sigkill[OF this keeps_length[OF k4 keeps_length[OF k2 assms(2)]]]
    show ?thesis .
  next
    assume "is_done k r ?w3"
    from done_keeps[OF keeps_trans[OF keeps_shutdown_wait keeps_shutdown_sigkill] this]
    show ?thesis .
  qed
  from done_keeps[OF keeps_log this] show ?thesis by (simp only: shutdown_unfold)
qed

lemma length_heap_on_exit [simp]: "length (heap (on_exit r oc w)) = length (heap w)"
  by (simp add: on_exit_def)

lemma sessions_get_on_exit [simp]: "sessions_get (on_exit r oc w) k = sessions_get w k"
  by (simp add: sessions_get_def)

lemma status_on_exit: "r < length (heap w) \<Longrightarrow> status (deref (on_exit r oc w) r) = offline"
  by (simp add: on_exit_def deref_def)

lemma process_on_exit:
  "r < length (heap w) \<Longrightarrow> process (deref (on_exit r oc w) r) = node_exit oc (process (deref w r))"
  by (simp add: on_exit_def deref_def)

lemma isAlive_after_exit_code:
  "sessions_get w k = Some r \<Longrightarrow> r < length (heap w) \<Longrightarrow>
     fst (isAlive k (on_exit r (ExitCode c) w)) = False"
  by (simp add: isAlive_def process_on_exit node_exit_def)

lemma isAlive_after_signal:
  "sessions_get w k = Some r \<Longrightarrow> r < length (heap w) \<Longrightarrow>
   \<not> killed (process (deref w r)) \<Longrightarrow> exitCode (process (deref w r)) = None \<Longrightarrow>
     isAlive k (on_exit r (ExitSignal s) w) = (True, on_exit r (ExitSignal s) w)"
  by (simp add: isAlive_def process_on_exit node_exit_def)

lemma send_after_exit:
  "sessions_get w k = Some r \<Longrightarrow> r < length (heap w) \<Longrightarrow>
     sendText now k t (on_exit r oc w) = (Inl OfflineError, on_exit r oc w) \<and>
     sendControl now k c (on_exit r oc w) = (Inl OfflineError, on_exit r oc w)"
  by (simp add: sendText_offline sendControl_offline status_on_exit)

lemma heap_a: "length (heap world_a) = 1" "deref world_a 0 = state_a"
  by (simp_all add: world_a_eq deref_def)

lemma world_exited_eq:
  "world_exited =
     \<lparr> sessions = [(js ''a'', 0)],
       heap = [state_a\<lparr> process := (process state_a)\<lparr> exitCode := Some 0 \<rparr>, status := offline \<rparr>],
       spawned = [(default_args, js ''/tmp'')],
       logged = [LogCreating (js ''a'') (js ''/tmp''), LogStarted (js ''a'') 100,
                 LogExited (js ''a'') (Some 0)] \<rparr>"
  by (simp add: world_exited_def on_exit_def world_a_eq modify_def log_def deref_def
        node_exit_def exit_code_of_def state_a_def)

lemma wf_ids:
  "wf w = (distinct (map fst (sessions w)) \<and>
           (\<forall>(k, r) \<in> set (sessions w). r < length (heap_ids w) \<and> heap_ids w ! r = k))"
  by (auto simp: wf_def list_all_iff heap_ids_def)

lemma wf_same:
  "sessions w' = sessions w \<Longrightarrow> heap_ids w' = heap_ids w \<Longrightarrow> wf w \<Longrightarrow> wf w'"
  by (simp add: wf_ids)

lemma wf_deleted:
  "sessions w' = sessions_delete k (sessions w) \<Longrightarrow> heap_ids w' = heap_ids w \<Longrightarrow> wf w \<Longrightarrow> wf w'"
  by (auto simp: wf_ids sessions_delete_def distinct_map_filter)

lemma wf_new_manager: "wf new_manager"
  by (simp add: wf_def new_manager_def)

lemma wf_create: "wf w \<Longrightarrow> wf (snd (create now sr opts w))"
proof (cases "sessions_get w (opt_id opts) \<noteq> None")
  case True
  then show "wf w \<Longrightarrow> ?thesis" by (simp add: create_def)
next
  case False
  assume w: "wf w"
  from False have nk: "opt_id opts \<notin> fst ` set (sessions w)"
    by (simp add: sessions_get_def map_of_eq_None_iff)
  show ?thesis
  proof (cases sr)
    case NoPid
    have "wf (snd (create now NoPid opts w))"
      by (rule wf_same[OF _ _ w]) (use False in \<open>simp_all add: create_def Let_def log_def heap_ids_def\<close>)
    with NoPid show ?thesis by simp
  next
    case (Spawned p has_stdin)
    let ?w' = "snd (create now (Spawned p has_stdin) opts w)"
    show ?thesis
    proof (cases "p = 0")
      case True
      have "wf ?w'"
        by (rule wf_same[OF _ _ w])
           (use False True in \<open>simp_all add: create_def Let_def log_def heap_ids_def\<close>)
      with Spawned show ?thesis by simp
    next
      case nz: False
      have s: "sessions ?w' = sessions w @ [(opt_id opts, length (heap w))]"
        using False nz by (simp add: create_def Let_def log_def)
      have h: "heap_ids ?w' = heap_ids w @ [opt_id opts]"
        using False nz by (simp add: create_def Let_def log_def heap_ids_def)
      from w nk have "wf ?w'"
        unfolding wf_ids s h by (auto simp: nth_append heap_ids_def)
      with Spawned show ?thesis by simp
    qed
  qed
qed

lemma wf_sendText: "wf w \<Longrightarrow> wf (snd (sendText now k t w))"
  by (rule wf_same) (simp_all add: sendText_def heap_ids_modify split: option.splits)

lemma wf_sendControl: "wf w \<Longrightarrow> wf (snd (sendControl now k c w))"
  by (rule wf_same) (simp_all add: sendControl_def heap_ids_modify split: option.splits js_prop.splits)

lemma wf_isAlive: "wf w \<Longrightarrow> wf (snd (isAlive k w))"
  by (rule wf_same) (simp_all add: isAlive_def heap_ids_modify split: option.splits)

lemma wf_updateStatus: "wf w \<Longrightarrow> wf (updateStatus now k st w)"
  by (rule wf_same) (simp_all add: updateStatus_def heap_ids_modify split: option.splits)

lemma wf_on_data: "wf w \<Longrightarrow> wf (on_data eol now r t w)"
  by (rule wf_same) (simp_all add: on_data_def heap_ids_modify appendOutput_def Let_def)

lemma wf_on_exit: "wf w \<Longrightarrow> wf (on_exit r oc w)"
  by (rule wf_same) simp_all

lemma wf_on_error: "wf w \<Longrightarrow> wf (on_error r m w)"
  by (rule wf_same) (simp_all add: on_error_def heap_ids_modify)

lemma wf_kill: "wf w \<Longrightarrow> wf (kill env k w)"
  by (rule wf_deleted[OF sessions_kill]) simp_all

lemma wf_shutdown: "wf (shutdown env w)"
  by (simp add: wf_def sessions_shutdown)

lemma wf_step: "wf w \<Longrightarrow> wf (step op w)"
  by (cases op)
     (simp_all add: wf_create wf_sendText wf_sendControl wf_kill wf_isAlive wf_updateStatus
        wf_shutdown wf_on_data wf_on_exit wf_on_error)

lemma wf_run: "wf w \<Longrightarrow> wf (run ops w)"
  by (induction ops arbitrary: w) (simp_all add: wf_step)

lemma wf_reachable: "wf (run ops new_manager)"
  by (rule wf_run[OF wf_new_manager])

lemma controlMap_Undefined_iff:
  "controlMap c = Undefined \<longleftrightarrow>
     c \<notin> {js ''C-c'', js ''C-d'', js ''C-z''} \<union> set object_prototype_names"
  by (simp add: controlMap_def)

lemma sendControl_unknown:
  "sessions_get w k = Some r \<Longrightarrow> status (deref w r) \<noteq> offline \<Longrightarrow>
   stdin (process (deref w r)) \<noteq> None \<Longrightarrow> controlMap c = Undefined \<Longrightarrow>
     sendControl now k c w = (Inl UnknownControlError, w)"
  by (simp add: sendControl_def)

lemma controlMap_three:
  "controlMap (js ''C-c'') = Str [0x03]"
  "controlMap (js ''C-d'') = Str [0x04]"
  "controlMap (js ''C-z'') = Str [0x1A]"
  by (simp_all add: controlMap_def js_def)

lemma sendControl_known:
  "sessions_get w k = Some r \<Longrightarrow> status (deref w r) \<noteq> offline \<Longrightarrow>
   stdin (process (deref w r)) \<noteq> None \<Longrightarrow> controlMap c = Str b \<Longrightarrow>
     sendControl now k c w =
       (Inr (), modify r (\<lambda>state. state\<lparr> process := stdin_write b (process state),
                                          lastActivity := now \<rparr>)
                  (log (LogSendingControl k c) w))"
  by (simp add: sendControl_def)

lemma sendControl_not_found:
  "sessions_get w k = None \<Longrightarrow> sendControl now k c w = (Inl NotFoundError, w)"
  by (simp add: sendControl_def)

lemmas rx_defs = proceed_re_def footer_re_def selector_re_def esc_re_def option_re_def tool_re_def cmd_re_def
  RLitI_def RSeqs_def ROpt_def RPlus_def js_def rx_test_def rx_exec_def capture_def
  CURSOR_def BULLET_FULL_def BULLET_HALF_def BULLET_DOT_def LF_def CR_def
  is_space_def is_digit_def is_dot_def is_word_def is_line_terminator_def same_ci_def canonicalize_def

lemmas parse_defs = parsePermissionPrompt_def split_lines_def find_proceed_def trim_def slice_def

lemma parse_scenario_lf:
  "parsePermissionPrompt (concat (with_newlines [LF] scenario_lines)) = Some scenario_prompt"
  by (simp add: scenario_lines_def scenario_prompt_def parse_defs rx_defs)

lemma parse_scenario_crlf:
  "parsePermissionPrompt (concat (with_newlines [CR, LF] scenario_lines)) = Some scenario_prompt"
  by (simp add: scenario_lines_def scenario_prompt_def parse_defs rx_defs)

lemma parse_scenario_raw:
  "parsePermissionPrompt (concat scenario_lines) = None"
  by (simp add: scenario_lines_def parse_defs rx_defs)

lemma parse_unmarked:
  "parsePermissionPrompt (concat (with_newlines [LF] scenario_unmarked_lines)) = None"
  by (simp add: scenario_unmarked_lines_def parse_defs rx_defs)

lemma parse_single:
  "parsePermissionPrompt (concat (with_newlines [LF] scenario_single_lines)) = None"
  by (simp add: scenario_single_lines_def parse_defs rx_defs)

lemma footer_loop_found:
  "footer_loop ls idxs hs = (f, s) \<Longrightarrow> f \<or> (s \<and> \<not> hs) \<Longrightarrow>
     \<exists>j \<in> set idxs. rx_test footer_re (ls ! j) \<or> rx_test selector_re (ls ! j)"
proof (induction idxs arbitrary: hs)
  case Nil
  then show ?case by simp
next
  case (Cons i idxs)
  show ?case
  proof (cases "rx_test footer_re (ls ! i) \<or> rx_test selector_re (ls ! i)")
    case True
    then show ?thesis by auto
  next
    case False
    with Cons.prems have "footer_loop ls idxs hs = (f, s)" by simp
    from Cons.IH[OF this Cons.prems(2)] show ?thesis by auto
  qed
qed

lemma parse_Some_gates:
  assumes "parsePermissionPrompt output = Some p"
  shows "\<exists>idx. find_proceed (split_lines output) = Some idx \<and>
           (\<exists>j. idx < j \<and> j < idx + 15 \<and> j < length (split_lines output) \<and>
                (rx_test footer_re (split_lines output ! j) \<or>
                 rx_test selector_re (split_lines output ! j))) \<and>
           options p = options_loop (split_lines output)
                         [idx + 1 ..< min (length (split_lines output)) (idx + 10)] [] \<and>
           2 \<le> length (options p)"
proof -
  let ?ls = "split_lines output"
  from assms obtain idx where idx: "find_proceed ?ls = Some idx"
    by (auto simp: parsePermissionPrompt_def Let_def split: option.splits)
  obtain f s where fs: "footer_loop ?ls [idx + 1 ..< min (length ?ls) (idx + 15)] False = (f, s)"
    by (cases "footer_loop ?ls [idx + 1 ..< min (length ?ls) (idx + 15)] False")
  let ?opts = "options_loop ?ls [idx + 1 ..< min (length ?ls) (idx + 10)] []"
  from assms idx fs have g1: "f \<or> s"
    by (auto simp: parsePermissionPrompt_def Let_def split: if_splits)
  from assms idx fs g1 have g2: "\<not> length ?opts < 2" and p: "options p = ?opts"
    by (auto simp: parsePermissionPrompt_def Let_def split: if_splits)
  from footer_loop_found[OF fs] g1
  obtain j where jin: "j \<in> set [idx + 1 ..< min (length ?ls) (idx + 15)]"
    and jm: "rx_test footer_re (?ls ! j) \<or> rx_test selector_re (?ls ! j)"
    by auto
  from jin have "idx < j \<and> j < idx + 15 \<and> j < length ?ls" by auto
  with jm have "\<exists>j. idx < j \<and> j < idx + 15 \<and> j < length ?ls \<and>
      (rx_test footer_re (?ls ! j) \<or> rx_test selector_re (?ls ! j))"
    by blast
  with idx g2 p show ?thesis by simp
qed

lemma length_with_newlines [simp]: "length (with_newlines eol ls) = length ls"
  by (induction eol ls rule: with_newlines.induct) simp_all

lemma buffer_world_lines:
  "length ls \<le> 200 \<Longrightarrow> split_lines (join eol ls) = ls \<Longrightarrow>
     outputBuffer (deref (world_lines eol ls) 0) = with_newlines eol ls"
  by (simp add: world_lines_def on_data_def world_a_eq deref_def appendOutput_def Let_def
        state_a_def MAX_OUTPUT_LINES_def)

lemma sessions_get_world_lines [simp]:
  "sessions_get (world_lines eol ls) k = sessions_get world_a k"
  by (simp add: world_lines_def sessions_get_def)

lemma split_join_scenario:
  "split_lines (join [LF] scenario_lines) = scenario_lines"
  "split_lines (join [CR, LF] scenario_lines) = scenario_lines"
  "split_lines (join [LF] scenario_unmarked_lines) = scenario_unmarked_lines"
  "split_lines (join [LF] scenario_single_lines) = scenario_single_lines"
  by (simp_all add: scenario_lines_def scenario_unmarked_lines_def scenario_single_lines_def
        split_lines_def js_def LF_def CR_def CURSOR_def)

lemma getOutput_short:
  "sessions_get w k = Some r \<Longrightarrow> length (outputBuffer (deref w r)) \<le> 50 \<Longrightarrow>
     getOutput k 50 w = Inr (concat (outputBuffer (deref w r)))"
  using slice_from_neg[of 50 "outputBuffer (deref w r)"]
  by (simp add: getOutput_def last_n_short)

lemma detect_world_lines:
  "length ls \<le> 50 \<Longrightarrow> split_lines (join eol ls) = ls \<Longrightarrow>
     detectPermissionPrompt (js ''a'') (world_lines eol ls) =
       Inr (parsePermissionPrompt (concat (with_newlines eol ls)))"
  by (simp add: detectPermissionPrompt_def getOutput_short[where r = 0] get_a buffer_world_lines)

lemma buffer_world_raw:
  "outputBuffer (deref (world_raw scenario_lines) 0) = scenario_lines"
  by (simp add: world_raw_def scenario_lines_def on_data_def world_a_eq deref_def
        appendOutput_def Let_def state_a_def MAX_OUTPUT_LINES_def split_lines_def modify_def
        js_def LF_def CURSOR_def)

lemma sessions_run_on_data:
  "sessions (run (map (\<lambda>l. OnData eol now r l) ls) w) = sessions w"
  by (induction ls arbitrary: w) simp_all

lemma detect_world_raw:
  "detectPermissionPrompt (js ''a'') (world_raw scenario_lines) = Inr None"
proof -
  have g: "sessions_get (world_raw scenario_lines) (js ''a'') = Some 0"
    using get_a by (simp add: world_raw_def sessions_get_def sessions_run_on_data)
  have "length (outputBuffer (deref (world_raw scenario_lines) 0)) \<le> 50"
    by (simp only: buffer_world_raw) (simp add: scenario_lines_def)
  from getOutput_short[OF g this] show ?thesis
    by (simp add: detectPermissionPrompt_def buffer_world_raw parse_scenario_raw)
qed

lemma parse_scenario_with_bullet:
  "map_option tool
     (parsePermissionPrompt
        (concat (with_newlines [LF] ((BULLET_FULL # js '' Bash(ls -la)'') # tl scenario_lines)))) =
   Some (js ''Bash'')"
  by (simp add: scenario_lines_def parse_defs rx_defs)

lemma frozen_keeps:
  "keeps w w' \<Longrightarrow> r < length (heap w) \<Longrightarrow> status (heap w ! r) = offline \<Longrightarrow> frozen r w w'"
  by (simp add: keeps_def frozen_def)

lemma frozen_updateStatus_other:
  assumes "sessions_get w k \<noteq> Some r" and "r < length (heap w)"
    and "status (heap w ! r) = offline"
  shows "frozen r w (updateStatus now k st w)"
proof (cases "sessions_get w k")
  case None
  with assms show ?thesis by (simp add: updateStatus_def frozen_def)
next
  case (Some r')
  with assms(1) have "r' \<noteq> r" by simp
  with Some assms(2,3) show ?thesis by (simp add: updateStatus_def frozen_def)
qed

lemma frozen_step:
  assumes "\<not> revives r op w" and "r < length (heap w)" and "status (heap w ! r) = offline"
  shows "frozen r w (step op w)"
proof (cases "restores_status op")
  case False
  from frozen_keeps[OF keeps_step[OF False] assms(2,3)] show ?thesis .
next
  case True
  then obtain now k st where op: "op = UpdateStatus now k st" and st: "st \<noteq> offline"
    by (cases op) simp_all
  with assms(1) have "sessions_get w k \<noteq> Some r" by simp
  from frozen_updateStatus_other[OF this assms(2,3)] op show ?thesis by simp
qed

lemma frozen_run:
  "never_revived r ops w \<Longrightarrow> r < length (heap w) \<Longrightarrow> status (heap w ! r) = offline \<Longrightarrow>
     frozen r w (run ops w)"
proof (induction ops arbitrary: w)
  case Nil
  then show ?case by (simp add: frozen_def)
next
  case (Cons op ops)
  from Cons.prems have nr: "\<not> revives r op w" and rest: "never_revived r ops (step op w)"
    by simp_all
  from frozen_step[OF nr Cons.prems(2,3)] have f1: "frozen r w (step op w)" .
  then have "frozen r (step op w) (run ops (step op w))"
    by (intro Cons.IH[OF rest]) (simp_all add: frozen_def)
  with f1 show ?case by (simp add: frozen_def)
qed

lemma heap_ids_sendText [simp]: "heap_ids (snd (sendText now k t w)) = heap_ids w"
  by (simp add: sendText_def heap_ids_modify split: option.splits)

lemma heap_ids_sendControl [simp]: "heap_ids (snd (sendControl now k c w)) = heap_ids w"
  by (simp add: sendControl_def heap_ids_modify split: option.splits js_prop.splits)

lemma heap_ids_isAlive [simp]: "heap_ids (snd (isAlive k w)) = heap_ids w"
  by (simp add: isAlive_def heap_ids_modify split: option.splits)

lemma heap_ids_updateStatus [simp]: "heap_ids (updateStatus now k st w) = heap_ids w"
  by (simp add: updateStatus_def heap_ids_modify split: option.splits)

lemma heap_ids_shutdown_begin [simp]: "heap_ids (shutdown_begin ks w) = heap_ids w"
  by (induction ks arbitrary: w) auto

lemma heap_ids_shutdown_wait [simp]: "heap_ids (shutdown_wait ev ks w) = heap_ids w"
  by (induction ks arbitrary: w) auto

lemma heap_ids_shutdown_sigterm [simp]: "heap_ids (snd (shutdown_sigterm env ks w)) = heap_ids w"
proof (induction ks arbitrary: w)
  case Nil
  show ?case by simp
next
  case (Cons a ks)
  obtain k r where a: "a = (k, r)" by (cases a)
  show ?case by (simp only: a snd_shutdown_sigterm_Cons) (simp add: Cons.IH)
qed

lemma heap_ids_shutdown_sigkill [simp]: "heap_ids (shutdown_sigkill env ks w) = heap_ids w"
  by (induction ks arbitrary: w) auto

lemma heap_ids_shutdown [simp]: "heap_ids (shutdown env w) = heap_ids w"
  by (simp add: shutdown_unfold)

lemma heap_ids_create: "\<exists>xs. heap_ids (snd (create now sr opts w)) = heap_ids w @ xs"
proof (cases "sessions_get w (opt_id opts) \<noteq> None")
  case True
  then show ?thesis by (simp add: create_def)
next
  case False
  show ?thesis
  proof (cases sr)
    case NoPid
    with False show ?thesis by (simp add: create_def Let_def log_def heap_ids_def)
  next
    case (Spawned p has_stdin)
    with False show ?thesis by (simp add: create_def Let_def log_def heap_ids_def)
  qed
qed

lemma heap_ids_step: "\<exists>xs. heap_ids (step op w) = heap_ids w @ xs"
  by (cases op) (simp_all add: heap_ids_create)

lemma session_id_step:
  "r < length (heap w) \<Longrightarrow> session_id (deref (step op w) r) = session_id (deref w r)"
proof -
  assume r: "r < length (heap w)"
  obtain xs where xs: "heap_ids (step op w) = heap_ids w @ xs"
    using heap_ids_step by blast
  from r have r': "r < length (heap (step op w))"
    using arg_cong[OF xs, of length] by (simp add: heap_ids_def)
  from r have "heap_ids w ! r = (heap_ids w @ xs) ! r"
    by (simp add: nth_append heap_ids_def)
  with xs have "heap_ids (step op w) ! r = heap_ids w ! r" by simp
  with r r' show ?thesis by (simp add: heap_ids_def deref_def)
qed

lemma never_revived_if_no_own_updateStatus:
  "wf w \<Longrightarrow> r < length (heap w) \<Longrightarrow> status (deref w r) = offline \<Longrightarrow>
   list_all (\<lambda>op. \<not> updates_status_of (session_id (deref w r)) op) ops \<Longrightarrow>
     never_revived r ops w"
proof (induction ops arbitrary: w)
  case Nil
  show ?case by simp
next
  case (Cons op ops)
  have nr: "\<not> revives r op w"
  proof
    assume rv: "revives r op w"
    then obtain now k st where op: "op = UpdateStatus now k st" and st: "st \<noteq> offline"
      and g: "sessions_get w k = Some r"
      by (cases op) simp_all
    from g have "(k, r) \<in> set (sessions w)"
      by (simp add: sessions_get_def map_of_SomeD)
    with Cons.prems(1) have "session_id (heap w ! r) = k"
      by (auto simp: wf_def list_all_iff)
    with Cons.prems(4) op st show False by (simp add: deref_def)
  qed
  from Cons.prems(3) have o: "status (heap w ! r) = offline" by (simp add: deref_def)
  from frozen_step[OF nr Cons.prems(2) o]
  have r': "r < length (heap (step op w))" and o': "status (deref (step op w) r) = offline"
    by (simp_all add: frozen_def deref_def)
  from Cons.prems(4) session_id_step[OF Cons.prems(2), of op]
  have l: "list_all (\<lambda>op'. \<not> updates_status_of (session_id (deref (step op w) r)) op') ops"
    by simp
  from Cons.IH[OF wf_step[OF Cons.prems(1)] r' o' l] nr show ?case by simp
qed

lemma deref_kill_begin:
  "r < length (heap w) \<Longrightarrow> deref (kill_begin k r w) r = obj_begin (deref w r)"
  by (simp add: kill_begin_def deref_def obj_begin_def)

lemma deref_kill_wait:
  "r < length (heap w) \<Longrightarrow> deref (kill_wait ev r w) r = obj_wait ev (deref w r)"
  by (simp add: kill_wait_def on_exit_def deref_def obj_wait_def split: option.splits)

lemma deref_kill_sigterm:
  "r < length (heap w) \<Longrightarrow> deref (kill_sigterm env r w) r = obj_sigterm env (deref w r)"
  by (simp add: kill_sigterm_def deref_def obj_sigterm_def)

lemma deref_kill_sigkill:
  "r < length (heap w) \<Longrightarrow> deref (kill_sigkill env r w) r = obj_sigkill env (deref w r)"
  by (simp add: kill_sigkill_def deref_def obj_sigkill_def)

lemma deref_kill_finish:
  "r < length (heap w) \<Longrightarrow> deref (kill_finish k r w) r = obj_finish (deref w r)"
  by (simp add: kill_finish_def deref_def obj_finish_def)

lemma other_kill_begin: "r' \<noteq> r \<Longrightarrow> deref (kill_begin k r' w) r = deref w r"
  by (simp add: kill_begin_def deref_def)

lemma other_kill_wait: "r' \<noteq> r \<Longrightarrow> deref (kill_wait ev r' w) r = deref w r"
  by (simp add: kill_wait_def on_exit_def deref_def split: option.splits)

lemma other_kill_sigterm: "r' \<noteq> r \<Longrightarrow> deref (kill_sigterm env r' w) r = deref w r"
  by (simp add: kill_sigterm_def deref_def)

lemma other_kill_sigkill: "r' \<noteq> r \<Longrightarrow> deref (kill_sigkill env r' w) r = deref w r"
  by (simp add: kill_sigkill_def deref_def)

lemma other_kill_finish: "r' \<noteq> r \<Longrightarrow> deref (kill_finish k r' w) r = deref w r"
  by (simp add: kill_finish_def deref_def)

lemma deref_kill:
  "sessions_get w k = Some r \<Longrightarrow> r < length (heap w) \<Longrightarrow>
     deref (kill env k w) r = kill_object env (deref w r)"
  by (simp add: kill_def kill_object_def Let_def deref_kill_begin deref_kill_wait
        deref_kill_sigterm deref_kill_sigkill deref_kill_finish)

lemma length_heap_shutdown_begin [simp]: "length (heap (shutdown_begin ks w)) = length (heap w)"
  by (induction ks arbitrary: w) auto

lemma length_heap_shutdown_wait [simp]: "length (heap (shutdown_wait ev ks w)) = length (heap w)"
  by (induction ks arbitrary: w) auto

lemma length_heap_shutdown_sigterm [simp]:
  "length (heap (snd (shutdown_sigterm env ks w))) = length (heap w)"
proof (induction ks arbitrary: w)
  case Nil
  show ?case by simp
next
  case (Cons a ks)
  obtain k r where a: "a = (k, r)" by (cases a)
  show ?case by (simp only: a snd_shutdown_sigterm_Cons) (simp add: Cons.IH)
qed

lemma other_shutdown_begin:
  "r \<notin> snd ` set ks \<Longrightarrow> deref (shutdown_begin ks w) r = deref w r"
  by (induction ks arbitrary: w) (auto simp: other_kill_begin)

lemma other_shutdown_wait:
  "r \<notin> snd ` set ks \<Longrightarrow> deref (shutdown_wait ev ks w) r = deref w r"
  by (induction ks arbitrary: w) (auto simp: other_kill_wait)

lemma other_shutdown_sigkill:
  "r \<notin> snd ` set ks \<Longrightarrow> deref (shutdown_sigkill env ks w) r = deref w r"
  by (induction ks arbitrary: w) (auto simp: other_kill_sigkill other_kill_finish)

lemma other_shutdown_sigterm:
  "r \<notin> snd ` set ks \<Longrightarrow> deref (snd (shutdown_sigterm env ks w)) r = deref w r"
proof (induction ks arbitrary: w)
  case Nil
  show ?case by simp
next
  case (Cons a ks)
  obtain k r' where a: "a = (k, r')" by (cases a)
  from Cons.prems a have ne: "r' \<noteq> r" and notin: "r \<notin> snd ` set ks" by auto
  show ?case
    by (simp only: a snd_shutdown_sigterm_Cons)
       (simp add: Cons.IH[OF notin] other_kill_sigterm[OF ne] other_kill_finish[OF ne])
qed

lemma waiting_subset: "set (fst (shutdown_sigterm env ks w)) \<subseteq> set ks"
proof (induction ks arbitrary: w)
  case Nil
  show ?case by simp
next
  case (Cons a ks)
  obtain k r where a: "a = (k, r)" by (cases a)
  have 1: "set (fst (shutdown_sigterm env ks (kill_sigterm (env k) r w))) \<subseteq> set ks"
    and 2: "set (fst (shutdown_sigterm env ks (kill_finish k r w))) \<subseteq> set ks"
    by (rule Cons.IH)+
  show ?case
    unfolding a fst_shutdown_sigterm_Cons using 1 2 by auto
qed

lemma waiting_distinct:
  "distinct (map snd ks) \<Longrightarrow> distinct (map snd (fst (shutdown_sigterm env ks w)))"
proof (induction ks arbitrary: w)
  case Nil
  show ?case by simp
next
  case (Cons a ks)
  obtain k r where a: "a = (k, r)" by (cases a)
  from Cons.prems a have d: "distinct (map snd ks)" and n: "r \<notin> snd ` set ks" by auto
  from n waiting_subset[of env ks "kill_sigterm (env k) r w"]
  have "r \<notin> snd ` set (fst (shutdown_sigterm env ks (kill_sigterm (env k) r w)))" by auto
  with Cons.IH[OF d] show ?case
    unfolding a fst_shutdown_sigterm_Cons by simp
qed

lemma in_shutdown_begin:
  "distinct (map snd ks) \<Longrightarrow> (k, r) \<in> set ks \<Longrightarrow> r < length (heap w) \<Longrightarrow>
     deref (shutdown_begin ks w) r = obj_begin (deref w r) \<and>
     LogKilling k (pid (deref w r)) \<in> set (logged (shutdown_begin ks w))"
proof (induction ks arbitrary: w)
  case Nil
  then show ?case by simp
next
  case (Cons a ks)
  obtain k' r' where a: "a = (k', r')" by (cases a)
  from Cons.prems(1) a have d: "distinct (map snd ks)" and n: "r' \<notin> snd ` set ks" by auto
  show ?case
  proof (cases "a = (k, r)")
    case True
    with a have e: "k' = k" "r' = r" by simp_all
    from n e have "deref (shutdown_begin ks (kill_begin k r w)) r = deref (kill_begin k r w) r"
      by (simp add: other_shutdown_begin)
    moreover have "LogKilling k (pid (deref w r)) \<in> set (logged (kill_begin k r w))"
      by (simp add: kill_begin_def)
    then have "LogKilling k (pid (deref w r)) \<in> set (logged (shutdown_begin ks (kill_begin k r w)))"
      using keeps_shutdown_begin[of "kill_begin k r w" ks] by (auto simp: keeps_def)
    ultimately show ?thesis
      using Cons.prems(3) by (simp add: a e deref_kill_begin)
  next
    case False
    with Cons.prems(2) have m: "(k, r) \<in> set ks" by simp
    with n have ne: "r' \<noteq> r" by force
    from Cons.prems(3) have l: "r < length (heap (kill_begin k' r' w))" by simp
    from Cons.IH[OF d m l] other_kill_begin[OF ne, of k' w] show ?thesis
      by (simp add: a)
  qed
qed

lemma in_shutdown_wait:
  "distinct (map snd ks) \<Longrightarrow> (k, r) \<in> set ks \<Longrightarrow> r < length (heap w) \<Longrightarrow>
     deref (shutdown_wait ev ks w) r = obj_wait (ev k) (deref w r)"
proof (induction ks arbitrary: w)
  case Nil
  then show ?case by simp
next
  case (Cons a ks)
  obtain k' r' where a: "a = (k', r')" by (cases a)
  from Cons.prems(1) a have d: "distinct (map snd ks)" and n: "r' \<notin> snd ` set ks" by auto
  show ?case
  proof (cases "a = (k, r)")
    case True
    with a have e: "k' = k" "r' = r" by simp_all
    from n e Cons.prems(3) show ?thesis
      by (simp add: a other_shutdown_wait deref_kill_wait)
  next
    case False
    with Cons.prems(2) have m: "(k, r) \<in> set ks" by simp
    with n have ne: "r' \<noteq> r" by force
    from Cons.prems(3) have l: "r < length (heap (kill_wait (ev k') r' w))" by simp
    from Cons.IH[OF d m l] other_kill_wait[OF ne, of "ev k'" w] show ?thesis
      by (simp add: a)
  qed
qed

lemma in_shutdown_sigkill:
  "distinct (map snd ks) \<Longrightarrow> (k, r) \<in> set ks \<Longrightarrow> r < length (heap w) \<Longrightarrow>
     deref (shutdown_sigkill env ks w) r = obj_finish (obj_sigkill (env k) (deref w r))"
proof (induction ks arbitrary: w)
  case Nil
  then show ?case by simp
next
  case (Cons a ks)
  obtain k' r' where a: "a = (k', r')" by (cases a)
  from Cons.prems(1) a have d: "distinct (map snd ks)" and n: "r' \<notin> snd ` set ks" by auto
  show ?case
  proof (cases "a = (k, r)")
    case True
    with a have e: "k' = k" "r' = r" by simp_all
    from n e Cons.prems(3) show ?thesis
      by (simp add: a other_shutdown_sigkill deref_kill_finish deref_kill_sigkill)
  next
    case False
    with Cons.prems(2) have m: "(k, r) \<in> set ks" by simp
    with n have ne: "r' \<noteq> r" by force
    from Cons.prems(3)
    have l: "r < length (heap (kill_finish k' r' (kill_sigkill (env k') r' w)))" by simp
    from Cons.IH[OF d m l] other_kill_finish[OF ne, of k' "kill_sigkill (env k') r' w"]
      other_kill_sigkill[OF ne, of "env k'" w]
    show ?thesis by (simp add: a)
  qed
qed

lemma in_shutdown_sigterm:
  "distinct (map snd ks) \<Longrightarrow> (k, r) \<in> set ks \<Longrightarrow> r < length (heap w) \<Longrightarrow>
     (if killed (process (deref w r))
      then deref (snd (shutdown_sigterm env ks w)) r = obj_finish (deref w r) \<and>
           r \<notin> snd ` set (fst (shutdown_sigterm env ks w))
      else deref (snd (shutdown_sigterm env ks w)) r = obj_sigterm (env k) (deref w r) \<and>
           (k, r) \<in> set (fst (shutdown_sigterm env ks w)))"
proof (induction ks arbitrary: w)
  case Nil
  then show ?case by simp
next
  case (Cons a ks)
  obtain k' r' where a: "a = (k', r')" by (cases a)
  from Cons.prems(1) a have d: "distinct (map snd ks)" and n: "r' \<notin> snd ` set ks" by auto
  show ?case
  proof (cases "a = (k, r)")
    case True
    with a have e: "k' = k" "r' = r" by simp_all
    from n e have nr: "r \<notin> snd ` set ks" by simp
    show ?thesis
    proof (cases "killed (process (deref w r))")
      case kd: True
      from nr waiting_subset[of env ks "kill_finish k r w"]
      have "r \<notin> snd ` set (fst (shutdown_sigterm env ks (kill_finish k r w)))" by auto
      with kd nr Cons.prems(3) show ?thesis
        by (simp only: a e snd_shutdown_sigterm_Cons fst_shutdown_sigterm_Cons)
           (simp add: other_shutdown_sigterm deref_kill_finish)
    next
      case nk: False
      with nr Cons.prems(3) show ?thesis
        by (simp only: a e snd_shutdown_sigterm_Cons fst_shutdown_sigterm_Cons)
           (simp add: other_shutdown_sigterm deref_kill_sigterm)
    qed
  next
    case False
    with Cons.prems(2) have m: "(k, r) \<in> set ks" by simp
    with n have ne: "r' \<noteq> r" by force
    show ?thesis
    proof (cases "killed (process (deref w r'))")
      case kd: True
      from Cons.prems(3) have l: "r < length (heap (kill_finish k' r' w))" by simp
      from Cons.IH[OF d m l] other_kill_finish[OF ne, of k' w] kd show ?thesis
        by (simp only: a snd_shutdown_sigterm_Cons fst_shutdown_sigterm_Cons) simp
    next
      case nk: False
      from Cons.prems(3) have l: "r < length (heap (kill_sigterm (env k') r' w))" by simp
      from Cons.IH[OF d m l] other_kill_sigterm[OF ne, of "env k'" w] nk ne show ?thesis
        by (simp only: a snd_shutdown_sigterm_Cons fst_shutdown_sigterm_Cons) auto
    qed
  qed
qed

lemma wf_distinct_refs: "wf w \<Longrightarrow> distinct (map snd (sessions w))"
proof -
  assume w: "wf w"
  then have dk: "distinct (map fst (sessions w))"
    and ids: "\<And>k r. (k, r) \<in> set (sessions w) \<Longrightarrow> session_id (heap w ! r) = k"
    by (auto simp: wf_def list_all_iff)
  from dk have d: "distinct (sessions w)" by (simp add: distinct_map)
  have "inj_on snd (set (sessions w))"
  proof (rule inj_onI)
    fix p q assume p: "p \<in> set (sessions w)" and q: "q \<in> set (sessions w)" and e: "snd p = snd q"
    from ids[of "fst p" "snd p"] p have "session_id (heap w ! snd p) = fst p" by simp
    moreover from ids[of "fst q" "snd q"] q have "session_id (heap w ! snd q) = fst q" by simp
    ultimately show "p = q" using e by (simp add: prod_eq_iff)
  qed
  with d show ?thesis by (simp add: distinct_map)
qed

lemma deref_shutdown:
  assumes d: "distinct (map snd (sessions w))" and m: "(k, r) \<in> set (sessions w)"
    and r: "r < length (heap w)"
  shows "deref (shutdown env w) r = kill_object (env k) (deref w r) \<and>
         LogKilling k (pid (deref w r)) \<in> set (logged (shutdown env w))"
proof -
  let ?ks = "sessions w"
  let ?w0 = "log LogShuttingDown w"
  let ?w1 = "shutdown_begin ?ks ?w0"
  let ?w2 = "shutdown_wait (\<lambda>k. exit_in_first_wait (env k)) ?ks ?w1"
  let ?waiting = "fst (shutdown_sigterm env ?ks ?w2)"
  let ?w3 = "snd (shutdown_sigterm env ?ks ?w2)"
  let ?w4 = "shutdown_wait (\<lambda>k. exit_in_second_wait (env k)) ?waiting ?w3"
  let ?w5 = "shutdown_sigkill env ?waiting ?w4"
  let ?s1 = "obj_wait (exit_in_first_wait (env k)) (obj_begin (deref w r))"
  have sh: "shutdown env w = log LogAllTerminated ?w5" by (rule shutdown_unfold)
  from r have r0: "r < length (heap ?w0)" by simp
  from in_shutdown_begin[OF d m r0]
  have b: "deref ?w1 r = obj_begin (deref w r)"
    and lg: "LogKilling k (pid (deref w r)) \<in> set (logged ?w1)"
    by simp_all
  from r have r1: "r < length (heap ?w1)" by simp
  from in_shutdown_wait[OF d m r1, of "\<lambda>k. exit_in_first_wait (env k)"] b
  have w2: "deref ?w2 r = ?s1" by simp
  from r have r2: "r < length (heap ?w2)" by simp
  have dw: "distinct (map snd ?waiting)" by (rule waiting_distinct[OF d])
  have k15: "keeps ?w1 ?w5"
    by (rule keeps_trans[OF keeps_shutdown_wait keeps_trans[OF keeps_shutdown_sigterm
          keeps_trans[OF keeps_shutdown_wait keeps_shutdown_sigkill]]])
  from lg k15 have lg5: "LogKilling k (pid (deref w r)) \<in> set (logged ?w5)"
    by (auto simp: keeps_def)
  have obj: "deref ?w5 r = kill_object (env k) (deref w r)"
  proof (cases "killed (process ?s1)")
    case True
    with in_shutdown_sigterm[OF d m r2, of env] w2
    have 3: "deref ?w3 r = obj_finish ?s1" and nw: "r \<notin> snd ` set ?waiting"
      by simp_all
    from nw 3 have "deref ?w5 r = obj_finish ?s1"
      by (simp add: other_shutdown_sigkill other_shutdown_wait)
    with True show ?thesis by (simp add: kill_object_def Let_def)
  next
    case False
    with in_shutdown_sigterm[OF d m r2, of env] w2
    have 3: "deref ?w3 r = obj_sigterm (env k) ?s1" and iw: "(k, r) \<in> set ?waiting"
      by simp_all
    from r have r3: "r < length (heap ?w3)" by simp
    from in_shutdown_wait[OF dw iw r3, of "\<lambda>k. exit_in_second_wait (env k)"] 3
    have 4: "deref ?w4 r = obj_wait (exit_in_second_wait (env k)) (obj_sigterm (env k) ?s1)"
      by simp
    from r have r4: "r < length (heap ?w4)" by simp
    from in_shutdown_sigkill[OF dw iw r4, of env] 4
    have "deref ?w5 r = obj_finish (obj_sigkill (env k)
            (obj_wait (exit_in_second_wait (env k)) (obj_sigterm (env k) ?s1)))"
      by simp
    with False show ?thesis by (simp add: kill_object_def Let_def)
  qed
  from obj lg5 show ?thesis by (simp only: sh deref_log logged_log) simp
qed

lemma shutdown_like_kill:
  assumes w: "wf w" and m: "(k, r) \<in> set (sessions w)"
  shows "deref (shutdown env w) r = deref (kill (env k) k w) r \<and>
         LogKilling k (pid (deref w r)) \<in> set (logged (shutdown env w))"
proof -
  from w m have r: "r < length (heap w)" by (auto simp: wf_def list_all_iff)
  from w have "distinct (map fst (sessions w))" by (simp add: wf_def)
  with m have g: "sessions_get w k = Some r" by (simp add: sessions_get_def)
  from deref_shutdown[OF wf_distinct_refs[OF w] m r, of env] deref_kill[OF g r, of "env k"]
  show ?thesis by simp
qed

lemma world_ab_eq:
  "world_ab = \<lparr> sessions = [(js ''a'', 0), (js ''b'', 1)], heap = [state_a, state_b],
               spawned = [(default_args, js ''/tmp''), (default_args, js ''/tmp'')],
               logged = [LogCreating (js ''a'') (js ''/tmp''), LogStarted (js ''a'') 100,
                         LogCreating (js ''b'') (js ''/tmp''), LogStarted (js ''b'') 200] \<rparr>"
  by (simp add: world_ab_def world_a_eq create_def opts_b_def sessions_get_def log_def
        state_b_def Let_def js_def)

lemma wf_ab: "wf world_ab"
  unfolding world_ab_def by (rule wf_create[OF wf_a])

lemma get_b_ab: "sessions_get world_ab (js ''b'') = Some 1"
  by (simp add: world_ab_eq sessions_get_def js_def)

lemma kill_object_b:
  "kill_object env_none state_b =
     state_b\<lparr> process := (process state_b)\<lparr> stdin := Some \<lparr> written = [], ended = True \<rparr>,
                                               kill_calls := [js ''SIGTERM'', js ''SIGKILL''] \<rparr>,
              status := offline \<rparr>"
  by (simp add: kill_object_def obj_begin_def obj_wait_def obj_sigterm_def obj_sigkill_def
        obj_finish_def env_none_def state_b_def stdin_end_def process_kill_def Let_def)

lemma sessions_sendText [simp]: "sessions (snd (sendText now k t w)) = sessions w"
  by (simp add: sendText_def split: option.splits)

lemma sessions_sendControl [simp]: "sessions (snd (sendControl now k c w)) = sessions w"
  by (simp add: sendControl_def split: option.splits js_prop.splits)

lemma sessions_isAlive [simp]: "sessions (snd (isAlive k w)) = sessions w"
  by (simp add: isAlive_def split: option.splits)

lemma sessions_updateStatus [simp]: "sessions (updateStatus now k st w) = sessions w"
  by (simp add: updateStatus_def split: option.splits)

lemma sessions_create_new:
  "sessions_get w (opt_id opts) = None \<Longrightarrow> p \<noteq> 0 \<Longrightarrow>
     sessions (snd (create now (Spawned p h) opts w)) =
       sessions w @ [(opt_id opts, length (heap w))]"
  by (simp add: create_def Let_def log_def)

lemma never_revived_example: "never_revived 0 ops_after_exit world_exited"
proof -
  let ?w5 = "updateStatus 6 (js ''a'') offline
               (snd (sendControl 5 (js ''a'') (js ''C-c'')
                  (on_data [LF] 4 0 (js ''late output'')
                     (snd (isAlive (js ''a'')
                        (snd (sendText 3 (js ''a'') (js ''hello'') world_exited)))))))"
  let ?w6 = "updateStatus 6 (js ''b'') working ?w5"
  let ?w7 = "kill env_none (js ''a'') ?w6"
  let ?w8 = "snd (create 7 (Spawned 101 True) opts_a ?w7)"
  have s5: "sessions ?w5 = [(js ''a'', 0)]"
    by (simp add: world_exited_eq)
  have b: "sessions_get ?w5 (js ''b'') = None"
    unfolding sessions_get_def s5 by (simp add: js_def)
  have s7: "sessions ?w7 = []"
    using s5 by (simp add: sessions_kill sessions_delete_def)
  have "heap_ids ?w7 = heap_ids world_exited" by simp
  then have "length (heap ?w7) = length (heap world_exited)"
    by (simp only: length_heap_ids[symmetric])
  then have l7: "length (heap ?w7) = 1" by (simp add: world_exited_eq)
  have g7: "sessions_get ?w7 (opt_id opts_a) = None"
    unfolding sessions_get_def s7 by simp
  have "sessions ?w8 = sessions ?w7 @ [(opt_id opts_a, length (heap ?w7))]"
    by (rule sessions_create_new[OF g7]) simp
  then have s8: "sessions ?w8 = [(js ''a'', 1)]"
    by (simp only: s7 l7) (simp add: opts_a_def)
  have a: "sessions_get ?w8 (js ''a'') = Some 1"
    unfolding sessions_get_def s8 by simp
  from a b show ?thesis
    by (simp add: ops_after_exit_def)
qed

section \<open>The ring buffer\<close>

text \<open>
  Claim C3. Starting from an empty buffer, after any sequence of \<^verbatim>\<open>appendOutput\<close> calls
  the buffer holds the last \<open>min len 200\<close> of the \<open>len\<close> lines pushed, in their order, and
  its length is at most 200; after any single call, on any session, the length is at
  most 200; and when every call appends one line (a text without a line feed), the
  lines pushed are the texts themselves. No bound on the number of calls is needed.
\<close>

theorem ring_buffer_truncation_law:
  "outputBuffer state = [] \<Longrightarrow>
     outputBuffer (appendOutputs eol chunks state) =
       last_n (min (length (pushed_lines eol chunks)) 200) (pushed_lines eol chunks) \<and>
     length (outputBuffer (appendOutputs eol chunks state)) \<le> 200 \<and>
     length (outputBuffer (appendOutput eol now txt state')) \<le> 200 \<and>
     (list_all (\<lambda>(now, t). LF \<notin> set t) chunks \<longrightarrow> pushed_lines eol chunks = map snd chunks)"
proof -
  assume e: "outputBuffer state = []"
  then have b: "outputBuffer (appendOutputs eol chunks state) =
      last_n 200 (pushed_lines eol chunks)"
    using appendOutputs_buffer[of state eol chunks] by simp
  have m: "last_n 200 (pushed_lines eol chunks) =
      last_n (min (length (pushed_lines eol chunks)) 200) (pushed_lines eol chunks)"
    by (simp add: last_n_def min_def)
  from b have len: "length (outputBuffer (appendOutputs eol chunks state)) \<le> 200"
    by (simp add: length_last_n)
  have one: "length (outputBuffer (appendOutput eol now txt state')) \<le> 200"
    by (simp add: appendOutput_buffer length_last_n)
  from b m len one show ?thesis
    by (simp add: pushed_single_lines)
qed

theorem ring_buffer_truncation_witness:
  "outputBuffer state_a = [] \<and>
   outputBuffer (appendOutputs [LF] chunks3 state_a) = [js ''one'', js ''two'', js ''three''] \<and>
   list_all (\<lambda>(now, t). LF \<notin> set t) chunks3 \<and>
   pushed_lines [LF] chunks3 = [js ''one'', js ''two'', js ''three'']"
proof -
  have l: "list_all (\<lambda>(now, t). LF \<notin> set t) chunks3"
    by (simp add: chunks3_def js_def LF_def)
  have e: "outputBuffer state_a = []"
    by (simp add: state_a_def)
  from ring_buffer_truncation_law[OF e, of "[LF]" chunks3] l
  have p: "pushed_lines [LF] chunks3 = map snd chunks3"
    and b: "outputBuffer (appendOutputs [LF] chunks3 state_a) =
      last_n (min (length (pushed_lines [LF] chunks3)) 200) (pushed_lines [LF] chunks3)"
    by simp_all
  from p b l e show ?thesis
    by (simp add: chunks3_def last_n_def)
qed

section \<open>Creation with a duplicate id\<close>

text \<open>
  Claim C5. When the id is already a key of the registry, \<^verbatim>\<open>create\<close> fails with
  DuplicateSessionError and the manager is exactly as before: no call of \<^verbatim>\<open>spawn\<close>, no
  log line, the same registry, the same objects.
\<close>

theorem create_duplicate_fails_unchanged:
  "sessions_get w (opt_id opts) \<noteq> None \<Longrightarrow>
     create now sr opts w = (Inl DuplicateSessionError, w)"
  by (simp add: create_def)

theorem create_duplicate_witness:
  "sessions_get world_a (opt_id opts_a) = Some 0 \<and>
   create 2 (Spawned 101 True) opts_a world_a = (Inl DuplicateSessionError, world_a)"
  using create_duplicate_fails_unchanged[of world_a opts_a 2 "Spawned 101 True"] get_a
  by (simp add: opts_a_def)

section \<open>Termination of one session\<close>

text \<open>
  Claim C7. \<^verbatim>\<open>kill\<close> of an id that is not registered leaves the manager exactly as it
  was. \<^verbatim>\<open>kill\<close> of a registered id, in a well-formed manager and whatever the process
  does during the escalation, ends with the id no longer a key, no session of that id
  in \<^verbatim>\<open>list()\<close>, and the status of the session's object offline.
\<close>

theorem kill_unknown_noop_known_removed:
  "(sessions_get w k = None \<longrightarrow> kill env k w = w) \<and>
   (wf w \<and> sessions_get w k = Some r \<longrightarrow>
      sessions_get (kill env k w) k = None \<and>
      k \<notin> set (map session_id (list_sessions (kill env k w))) \<and>
      status (deref (kill env k w) r) = offline)"
proof (intro conjI impI)
  assume "sessions_get w k = None"
  then show "kill env k w = w" by (simp add: kill_def)
next
  assume a: "wf w \<and> sessions_get w k = Some r"
  show "sessions_get (kill env k w) k = None"
    by (simp add: sessions_get_def sessions_kill)
  from a have kr: "(k, r) \<in> set (sessions w)"
    by (simp add: sessions_get_def map_of_SomeD)
  with a have r: "r < length (heap w)" by (auto simp: wf_alt)
  from a r show "status (deref (kill env k w) r) = offline"
    by (simp add: status_kill)
  show "k \<notin> set (map session_id (list_sessions (kill env k w)))"
  proof
    assume "k \<in> set (map session_id (list_sessions (kill env k w)))"
    then obtain k' r' where in': "(k', r') \<in> set (sessions (kill env k w))"
      and id': "session_id (deref (kill env k w) r') = k"
      by (auto simp: list_sessions_def)
    from in' have ne: "k' \<noteq> k" and in0: "(k', r') \<in> set (sessions w)"
      by (auto simp: sessions_kill sessions_delete_def)
    from in0 a have r': "r' < length (heap w)" and hid: "heap_ids w ! r' = k'"
      by (auto simp: wf_alt)
    from r' have "r' < length (heap (kill env k w))"
      by (metis length_heap_ids heap_ids_kill)
    then have "session_id (deref (kill env k w) r') = heap_ids (kill env k w) ! r'"
      by (rule session_id_deref)
    with hid id' ne show False by simp
  qed
qed

theorem kill_witness:
  "sessions_get world_a (js ''b'') = None \<and> kill env_none (js ''b'') world_a = world_a \<and>
   wf world_a \<and> sessions_get world_a (js ''a'') = Some 0 \<and>
   list_sessions (kill env_none (js ''a'') world_a) = [] \<and>
   status (deref (kill env_none (js ''a'') world_a) 0) = offline"
proof -
  have 1: "kill env_none (js ''b'') world_a = world_a"
    using kill_unknown_noop_known_removed[of world_a "js ''b''" env_none 0] get_b by simp
  have 2: "status (deref (kill env_none (js ''a'') world_a) 0) = offline"
    using kill_unknown_noop_known_removed[of world_a "js ''a''" env_none 0] get_a wf_a by simp
  have 3: "list_sessions (kill env_none (js ''a'') world_a) = []"
    by (simp add: list_sessions_def sessions_kill world_a_eq sessions_delete_def)
  from 1 2 3 get_a get_b wf_a show ?thesis by simp
qed

section \<open>Detection on an unknown id\<close>

text \<open>
  Claim C10. For an id that is not registered, \<^verbatim>\<open>detectPermissionPrompt\<close> and
  \<^verbatim>\<open>detectBypassWarning\<close> fail with NotFoundError (raised by \<^verbatim>\<open>getOutput\<close>); neither
  returns an absent prompt or \<^verbatim>\<open>false\<close>.
\<close>

theorem detect_unknown_id_not_found:
  "sessions_get w sessionId = None \<Longrightarrow>
     detectPermissionPrompt sessionId w = Inl NotFoundError \<and>
     detectBypassWarning sessionId w = Inl NotFoundError"
  by (simp add: detectPermissionPrompt_def detectBypassWarning_def getOutput_def)

theorem detect_unknown_witness:
  "sessions_get world_a (js ''b'') = None \<and>
   detectPermissionPrompt (js ''b'') world_a = Inl NotFoundError \<and>
   detectBypassWarning (js ''b'') world_a = Inl NotFoundError"
  using detect_unknown_id_not_found[of world_a "js ''b''"] get_b
  by simp

section \<open>Offline sessions\<close>

text \<open>
  Claim C2, at the input where the code departs from it. The process of session
  \<open>a\<close> is ended by a signal that did not come from \<^verbatim>\<open>kill\<close>: the \<^verbatim>\<open>exit\<close> handler sets the
  status to offline, but \<^verbatim>\<open>isAlive\<close> reads only \<^verbatim>\<open>killed\<close> and \<^verbatim>\<open>exitCode\<close>, both unchanged,
  and answers \<^verbatim>\<open>true\<close>. After an exit with an exit code it answers \<^verbatim>\<open>false\<close>.
\<close>

theorem isAlive_true_after_signal_exit:
  "status (deref world_signalled 0) = offline \<and>
   isAlive (js ''a'') world_signalled = (True, world_signalled) \<and>
   fst (isAlive (js ''a'') world_exited) = False"
  unfolding world_signalled_def world_exited_def
  by (simp add: status_on_exit isAlive_after_signal isAlive_after_exit_code get_a heap_a state_a_def)

text \<open>
  Claim C4, refuted as stated: one call of \<^verbatim>\<open>updateStatus\<close> takes an offline session
  back to idle, after which \<^verbatim>\<open>sendText\<close> writes to the stdin of the ended process again.
\<close>

theorem updateStatus_revives_offline_session:
  "status (deref world_exited 0) = offline \<and>
   status (deref (run [UpdateStatus 9 (js ''a'') idle] world_exited) 0) = idle \<and>
   fst (sendText 10 (js ''a'') (js ''x'') (run [UpdateStatus 9 (js ''a'') idle] world_exited)) = Inr ()"
  by (simp add: world_exited_eq updateStatus_def sendText_def sessions_get_def modify_def
        deref_def log_def state_a_def)

text \<open>
  Claim C4, amended. An object whose status is offline stays offline, with nothing more
  written to its stdin, under every sequence of operations and process events in which
  no \<^verbatim>\<open>updateStatus\<close> call with idle or working reaches that object; calls on other
  sessions are allowed, and so are calls on its id once a \<^verbatim>\<open>create\<close> after a \<^verbatim>\<open>kill\<close> has
  made a new object under that id. While the status is offline, \<^verbatim>\<open>sendText\<close> and
  \<^verbatim>\<open>sendControl\<close> fail with OfflineError and change nothing; \<^verbatim>\<open>updateStatus\<close> sets the
  status it is given. In a well-formed manager it is enough that the sequence holds no
  \<^verbatim>\<open>updateStatus\<close> with idle or working on the session's own id, which is the second
  form of the hypothesis.
\<close>

theorem offline_kept_unless_updateStatus:
  "r < length (heap w) \<Longrightarrow> status (deref w r) = offline \<Longrightarrow>
   never_revived r ops w \<or>
   (wf w \<and> list_all (\<lambda>op. \<not> updates_status_of (session_id (deref w r)) op) ops) \<Longrightarrow>
     status (deref (run ops w) r) = offline \<and>
     stdin_written (deref (run ops w) r) = stdin_written (deref w r) \<and>
     (sessions_get w k = Some r \<longrightarrow>
        sendText now k t w = (Inl OfflineError, w) \<and>
        sendControl now k c w = (Inl OfflineError, w) \<and>
        status (deref (updateStatus now k st w) r) = st)"
proof -
  assume r: "r < length (heap w)" and o: "status (deref w r) = offline"
    and h: "never_revived r ops w \<or>
      (wf w \<and> list_all (\<lambda>op. \<not> updates_status_of (session_id (deref w r)) op) ops)"
  from h have ops: "never_revived r ops w"
  proof
    assume "never_revived r ops w"
    then show ?thesis .
  next
    assume "wf w \<and> list_all (\<lambda>op. \<not> updates_status_of (session_id (deref w r)) op) ops"
    with r o show ?thesis by (simp add: never_revived_if_no_own_updateStatus)
  qed
  from frozen_run[OF ops r] o
  have "status (heap (run ops w) ! r) = offline \<and>
        stdin_written (heap (run ops w) ! r) = stdin_written (heap w ! r)"
    by (simp add: frozen_def deref_def)
  with r o show ?thesis
    by (simp add: deref_def[symmetric] sendText_offline sendControl_offline updateStatus_sets)
qed

theorem offline_kept_witness:
  "0 < length (heap world_exited) \<and> status (deref world_exited 0) = offline \<and>
   never_revived 0 ops_after_exit world_exited \<and>
   sessions_get world_exited (js ''a'') = Some 0 \<and>
   status (deref (run ops_after_exit world_exited) 0) = offline \<and>
   stdin_written (deref (run ops_after_exit world_exited) 0) = Some [] \<and>
   sendText 3 (js ''a'') (js ''hello'') world_exited = (Inl OfflineError, world_exited) \<and>
   sendControl 5 (js ''a'') (js ''C-c'') world_exited = (Inl OfflineError, world_exited) \<and>
   status (deref (updateStatus 6 (js ''a'') working world_exited) 0) = working \<and>
   wf world_exited \<and>
   list_all (\<lambda>op. \<not> updates_status_of (session_id (deref world_exited 0)) op)
     ops_other_session \<and>
   status (deref (run ops_other_session world_exited) 0) = offline"
proof -
  have 1: "0 < length (heap world_exited)"
    by (simp add: world_exited_def heap_a)
  have 2: "status (deref world_exited 0) = offline"
    by (simp add: world_exited_def status_on_exit heap_a)
  note 3 = never_revived_example
  have 4: "sessions_get world_exited (js ''a'') = Some 0"
    by (simp add: world_exited_def get_a)
  have 5: "stdin_written (deref world_exited 0) = Some []"
    by (simp add: world_exited_def stdin_written_def process_on_exit heap_a node_exit_def state_a_def)
  have 6: "wf world_exited"
    unfolding world_exited_def by (rule wf_on_exit[OF wf_a])
  have "session_id (deref world_exited 0) = js ''a''"
    by (simp add: world_exited_eq deref_def state_a_def)
  then have 7: "list_all (\<lambda>op. \<not> updates_status_of (session_id (deref world_exited 0)) op)
      ops_other_session"
    by (simp add: ops_other_session_def js_def)
  from 6 7
  have h8: "never_revived 0 ops_other_session world_exited \<or>
      (wf world_exited \<and>
       list_all (\<lambda>op. \<not> updates_status_of (session_id (deref world_exited 0)) op)
         ops_other_session)"
    by simp
  from offline_kept_unless_updateStatus[OF 1 2 h8]
  have 8: "status (deref (run ops_other_session world_exited) 0) = offline"
    by simp
  note h3 = disjI1[OF 3, of "wf world_exited \<and>
      list_all (\<lambda>op. \<not> updates_status_of (session_id (deref world_exited 0)) op) ops_after_exit"]
  from offline_kept_unless_updateStatus[OF 1 2 h3, of "js ''a''" 3 "js ''hello''" "js ''C-c''" working]
       offline_kept_unless_updateStatus[OF 1 2 h3, of "js ''a''" 5 "js ''hello''" "js ''C-c''" working]
       offline_kept_unless_updateStatus[OF 1 2 h3, of "js ''a''" 6 "js ''hello''" "js ''C-c''" working]
       1 2 3 4 5 6 7 8
  show ?thesis by simp
qed

section \<open>Control symbols\<close>

text \<open>
  Claim C8, at the input where the code departs from it. The symbol \<^verbatim>\<open>constructor\<close> is
  none of the three control symbols, yet \<^verbatim>\<open>controlMap[char]\<close> finds the member inherited
  from \<^verbatim>\<open>Object.prototype\<close>, so the check for an unknown symbol passes, the call is logged
  and the write is refused with a \<^verbatim>\<open>TypeError\<close>, not with UnknownControlError. A symbol
  such as \<^verbatim>\<open>C-x\<close> is rejected with UnknownControlError, and \<^verbatim>\<open>C-c\<close> is accepted.
\<close>

theorem sendControl_inherited_member:
  "controlMap (js ''constructor'') = Inherited \<and>
   sendControl 2 (js ''a'') (js ''constructor'') world_a =
     (Inl InvalidChunkError, log (LogSendingControl (js ''a'') (js ''constructor'')) world_a) \<and>
   sendControl 2 (js ''a'') (js ''C-x'') world_a = (Inl UnknownControlError, world_a) \<and>
   fst (sendControl 2 (js ''a'') (js ''C-c'') world_a) = Inr ()"
proof -
  have c: "controlMap (js ''constructor'') = Inherited"
    by (simp add: controlMap_def object_prototype_names_def js_def)
  have x: "controlMap (js ''C-x'') = Undefined"
    by (simp add: controlMap_def object_prototype_names_def js_def)
  have s: "status (deref world_a 0) \<noteq> offline" "stdin (process (deref world_a 0)) \<noteq> None"
    by (simp_all add: heap_a state_a_def)
  from c x s get_a show ?thesis
    by (simp add: sendControl_def controlMap_three)
qed

section \<open>Shutdown\<close>

text \<open>
  Claim C9. After \<^verbatim>\<open>shutdown\<close> the registry is empty, whatever the processes do; a
  second \<^verbatim>\<open>shutdown\<close> only logs its two lines: no \<^verbatim>\<open>kill\<close> runs, and registry, objects
  and \<^verbatim>\<open>spawn\<close> calls stay as they are. In a well-formed manager the first call does to
  every registered session what \<^verbatim>\<open>kill\<close> of its id does: the session's object ends
  exactly as \<^verbatim>\<open>kill\<close> leaves it (stdin ended, the same signals sent, status offline),
  and both log lines of its \<^verbatim>\<open>kill\<close> are logged.
\<close>

theorem shutdown_twice:
  "sessions (shutdown env w) = [] \<and>
   shutdown env' (shutdown env w) = log LogAllTerminated (log LogShuttingDown (shutdown env w)) \<and>
   (wf w \<longrightarrow>
      list_all (\<lambda>(k, r). deref (shutdown env w) r = deref (kill (env k) k w) r \<and>
                         status (deref (shutdown env w) r) = offline \<and>
                         LogKilling k (pid (deref w r)) \<in> set (logged (shutdown env w)) \<and>
                         LogKilled k \<in> set (logged (shutdown env w))) (sessions w))"
proof (intro conjI impI)
  show "sessions (shutdown env w) = []" by (rule sessions_shutdown)
  then show "shutdown env' (shutdown env w) =
      log LogAllTerminated (log LogShuttingDown (shutdown env w))"
    by (rule shutdown_empty)
  assume w: "wf w"
  then have "\<And>k r. (k, r) \<in> set (sessions w) \<Longrightarrow> r < length (heap w)"
    by (auto simp: wf_def list_all_iff)
  then have "\<And>k r. (k, r) \<in> set (sessions w) \<Longrightarrow> is_done k r (shutdown env w)"
    by (simp add: done_shutdown)
  with shutdown_like_kill[OF w]
  show "list_all (\<lambda>(k, r). deref (shutdown env w) r = deref (kill (env k) k w) r \<and>
                         status (deref (shutdown env w) r) = offline \<and>
                         LogKilling k (pid (deref w r)) \<in> set (logged (shutdown env w)) \<and>
                         LogKilled k \<in> set (logged (shutdown env w))) (sessions w)"
    by (auto simp: list_all_iff is_done_def deref_def)
qed

theorem shutdown_twice_witness:
  "wf world_ab \<and> sessions world_ab = [(js ''a'', 0), (js ''b'', 1)] \<and>
   sessions (shutdown (\<lambda>k. env_none) world_ab) = [] \<and>
   deref (shutdown (\<lambda>k. env_none) world_ab) 0 = deref (kill env_none (js ''a'') world_ab) 0 \<and>
   deref (shutdown (\<lambda>k. env_none) world_ab) 1 = deref (kill env_none (js ''b'') world_ab) 1 \<and>
   kill_calls (process (deref (shutdown (\<lambda>k. env_none) world_ab) 1)) =
     [js ''SIGTERM'', js ''SIGKILL''] \<and>
   map_option ended (stdin (process (deref (shutdown (\<lambda>k. env_none) world_ab) 1))) = Some True \<and>
   status (deref (shutdown (\<lambda>k. env_none) world_ab) 0) = offline \<and>
   status (deref (shutdown (\<lambda>k. env_none) world_ab) 1) = offline \<and>
   LogKilling (js ''b'') 200 \<in> set (logged (shutdown (\<lambda>k. env_none) world_ab)) \<and>
   LogKilled (js ''b'') \<in> set (logged (shutdown (\<lambda>k. env_none) world_ab)) \<and>
   shutdown (\<lambda>k. env_none) (shutdown (\<lambda>k. env_none) world_ab) =
     log LogAllTerminated (log LogShuttingDown (shutdown (\<lambda>k. env_none) world_ab))"
proof -
  have s: "sessions world_ab = [(js ''a'', 0), (js ''b'', 1)]" by (simp add: world_ab_eq)
  have h: "length (heap world_ab) = 2" "deref world_ab 1 = state_b"
    by (simp_all add: world_ab_eq deref_def)
  have p: "pid (deref world_ab 1) = 200" using h(2) by (simp add: state_b_def)
  from deref_kill[OF get_b_ab, of env_none] h
  have kb: "deref (kill env_none (js ''b'') world_ab) 1 = kill_object env_none state_b" by simp
  from shutdown_twice[of "\<lambda>k. env_none" world_ab "\<lambda>k. env_none"] wf_ab
  have e0: "sessions (shutdown (\<lambda>k. env_none) world_ab) = []"
    and e2: "shutdown (\<lambda>k. env_none) (shutdown (\<lambda>k. env_none) world_ab) =
       log LogAllTerminated (log LogShuttingDown (shutdown (\<lambda>k. env_none) world_ab))"
    and L: "list_all (\<lambda>(k, r).
              deref (shutdown (\<lambda>k. env_none) world_ab) r = deref (kill env_none k world_ab) r \<and>
              status (deref (shutdown (\<lambda>k. env_none) world_ab) r) = offline \<and>
              LogKilling k (pid (deref world_ab r)) \<in> set (logged (shutdown (\<lambda>k. env_none) world_ab)) \<and>
              LogKilled k \<in> set (logged (shutdown (\<lambda>k. env_none) world_ab))) (sessions world_ab)"
    by blast+
  note L' = L[unfolded s list.pred_inject prod.case p]
  from L' e0 e2
  have main: "sessions (shutdown (\<lambda>k. env_none) world_ab) = []"
    "deref (shutdown (\<lambda>k. env_none) world_ab) 0 = deref (kill env_none (js ''a'') world_ab) 0"
    "deref (shutdown (\<lambda>k. env_none) world_ab) 1 = deref (kill env_none (js ''b'') world_ab) 1"
    "status (deref (shutdown (\<lambda>k. env_none) world_ab) 0) = offline"
    "status (deref (shutdown (\<lambda>k. env_none) world_ab) 1) = offline"
    "LogKilling (js ''b'') 200 \<in> set (logged (shutdown (\<lambda>k. env_none) world_ab))"
    "LogKilled (js ''b'') \<in> set (logged (shutdown (\<lambda>k. env_none) world_ab))"
    "shutdown (\<lambda>k. env_none) (shutdown (\<lambda>k. env_none) world_ab) =
       log LogAllTerminated (log LogShuttingDown (shutdown (\<lambda>k. env_none) world_ab))"
    by blast+
  from main(3) kb have e: "deref (shutdown (\<lambda>k. env_none) world_ab) 1 = kill_object env_none state_b"
    by simp
  have "kill_calls (process (kill_object env_none state_b)) = [js ''SIGTERM'', js ''SIGKILL'']"
    "map_option ended (stdin (process (kill_object env_none state_b))) = Some True"
    by (simp_all add: kill_object_b)
  then have kc: "kill_calls (process (deref (shutdown (\<lambda>k. env_none) world_ab) 1)) =
      [js ''SIGTERM'', js ''SIGKILL'']"
    and en: "map_option ended (stdin (process (deref (shutdown (\<lambda>k. env_none) world_ab) 1))) =
      Some True"
    by (simp_all only: e)
  from wf_ab s main kc en show ?thesis by blast
qed

section \<open>Prompt detection\<close>

text \<open>
  Claim C1, refuted as stated: with the scenario's lines in the buffer of session \<open>a\<close>
  (as \<^verbatim>\<open>appendOutput\<close> stores them, for either line ending) a prompt is detected, but its
  tool is the sentinel \<^verbatim>\<open>Unknown\<close>: the line \<^verbatim>\<open>Bash(ls -la)\<close> has no bullet before the name
  and no blank after it, so neither tool pattern matches. With the six lines stored
  without any line ending, no prompt is detected at all.
\<close>

theorem prompt_scenario_tool_is_unknown_sentinel:
  "\<not> (\<exists>p. detectPermissionPrompt (js ''a'') (world_lines [LF] scenario_lines) = Inr (Some p) \<and>
          tool p \<noteq> js ''Unknown'' \<and>
          options p = [(js ''1'', js ''Yes''), (js ''2'', js ''No'')]) \<and>
   (\<exists>p. detectPermissionPrompt (js ''a'') (world_lines [LF] scenario_lines) = Inr (Some p) \<and>
        tool p = js ''Unknown'') \<and>
   (\<exists>p. detectPermissionPrompt (js ''a'') (world_lines [CR, LF] scenario_lines) = Inr (Some p) \<and>
        tool p = js ''Unknown'') \<and>
   detectPermissionPrompt (js ''a'') (world_raw scenario_lines) = Inr None"
proof -
  have l: "length scenario_lines \<le> 50" by (simp add: scenario_lines_def)
  have 1: "detectPermissionPrompt (js ''a'') (world_lines [LF] scenario_lines) =
      Inr (Some scenario_prompt)"
    by (simp add: detect_world_lines[OF l] split_join_scenario parse_scenario_lf)
  have 2: "detectPermissionPrompt (js ''a'') (world_lines [CR, LF] scenario_lines) =
      Inr (Some scenario_prompt)"
    by (simp add: detect_world_lines[OF l] split_join_scenario parse_scenario_crlf)
  have 3: "tool scenario_prompt = js ''Unknown''" by (simp add: scenario_prompt_def)
  from 1 2 3 detect_world_raw show ?thesis by simp
qed

text \<open>
  Claim C1, amended. For every session whose buffer holds the six lines of the scenario
  as \<^verbatim>\<open>appendOutput\<close> stores them (each but the last followed by the line ending, LF or
  CR LF), \<^verbatim>\<open>detectPermissionPrompt\<close> returns a prompt whose tool is \<^verbatim>\<open>Unknown\<close>, whose
  options are exactly 1 Yes and 2 No in that order, and whose context is the first five
  lines.
\<close>

theorem prompt_scenario_tool_unknown:
  "sessions_get w k = Some r \<Longrightarrow>
   outputBuffer (deref w r) = with_newlines eol scenario_lines \<Longrightarrow>
   eol = [LF] \<or> eol = [CR, LF] \<Longrightarrow>
     detectPermissionPrompt k w =
       Inr (Some \<lparr> tool = js ''Unknown'',
                   prompt_context = join [LF] (take 5 scenario_lines),
                   options = [(js ''1'', js ''Yes''), (js ''2'', js ''No'')] \<rparr>)"
proof -
  assume g: "sessions_get w k = Some r"
    and b: "outputBuffer (deref w r) = with_newlines eol scenario_lines"
    and e: "eol = [LF] \<or> eol = [CR, LF]"
  have "length (outputBuffer (deref w r)) \<le> 50"
    by (simp add: b scenario_lines_def)
  from getOutput_short[OF g this]
  have "detectPermissionPrompt k w =
      Inr (parsePermissionPrompt (concat (with_newlines eol scenario_lines)))"
    by (simp add: detectPermissionPrompt_def b)
  with e show ?thesis
    by (auto simp: parse_scenario_lf parse_scenario_crlf scenario_prompt_def)
qed

theorem prompt_scenario_witness:
  "sessions_get (world_lines [LF] scenario_lines) (js ''a'') = Some 0 \<and>
   outputBuffer (deref (world_lines [LF] scenario_lines) 0) = with_newlines [LF] scenario_lines \<and>
   detectPermissionPrompt (js ''a'') (world_lines [LF] scenario_lines) =
     Inr (Some \<lparr> tool = js ''Unknown'',
                 prompt_context = join [LF] (take 5 scenario_lines),
                 options = [(js ''1'', js ''Yes''), (js ''2'', js ''No'')] \<rparr>)"
proof -
  have g: "sessions_get (world_lines [LF] scenario_lines) (js ''a'') = Some 0"
    by (simp add: get_a)
  have b: "outputBuffer (deref (world_lines [LF] scenario_lines) 0) =
      with_newlines [LF] scenario_lines"
    by (rule buffer_world_lines) (simp_all add: split_join_scenario, simp add: scenario_lines_def)
  from prompt_scenario_tool_unknown[OF g b] g b show ?thesis by simp
qed

text \<open>
  Claim C6. Whenever a prompt is detected, the question line found is followed, at an
  index less than 15 further on (inside the 15 lines the claim allows), by a line
  with the footer phrase or with the cursor at its start, and the options returned are
  the ones collected, at least two. The scenario without its footer line and its cursor
  line yields no prompt, and so does a question followed by one numbered option.
\<close>

theorem prompt_needs_both_gates:
  "(detectPermissionPrompt k w = Inr (Some p) \<longrightarrow>
      (\<exists>output idx.
          getOutput k 50 w = Inr output \<and>
          find_proceed (split_lines output) = Some idx \<and>
          (\<exists>j. idx < j \<and> j < idx + 15 \<and> j < length (split_lines output) \<and>
               (rx_test footer_re (split_lines output ! j) \<or>
                rx_test selector_re (split_lines output ! j))) \<and>
          options p = options_loop (split_lines output)
                        [idx + 1 ..< min (length (split_lines output)) (idx + 10)] [] \<and>
          2 \<le> length (options p))) \<and>
   detectPermissionPrompt (js ''a'') (world_lines [LF] scenario_unmarked_lines) = Inr None \<and>
   detectPermissionPrompt (js ''a'') (world_lines [LF] scenario_single_lines) = Inr None"
proof (intro conjI impI)
  assume d: "detectPermissionPrompt k w = Inr (Some p)"
  then obtain out where o: "getOutput k 50 w = Inr out"
    and p: "parsePermissionPrompt out = Some p"
    by (auto simp: detectPermissionPrompt_def split: sum.splits)
  from parse_Some_gates[OF p] o
  show "\<exists>output idx.
          getOutput k 50 w = Inr output \<and>
          find_proceed (split_lines output) = Some idx \<and>
          (\<exists>j. idx < j \<and> j < idx + 15 \<and> j < length (split_lines output) \<and>
               (rx_test footer_re (split_lines output ! j) \<or>
                rx_test selector_re (split_lines output ! j))) \<and>
          options p = options_loop (split_lines output)
                        [idx + 1 ..< min (length (split_lines output)) (idx + 10)] [] \<and>
          2 \<le> length (options p)"
    by blast
next
  have "length scenario_unmarked_lines \<le> 50" by (simp add: scenario_unmarked_lines_def)
  then show "detectPermissionPrompt (js ''a'') (world_lines [LF] scenario_unmarked_lines) = Inr None"
    by (simp add: detect_world_lines split_join_scenario parse_unmarked)
next
  have "length scenario_single_lines \<le> 50" by (simp add: scenario_single_lines_def)
  then show "detectPermissionPrompt (js ''a'') (world_lines [LF] scenario_single_lines) = Inr None"
    by (simp add: detect_world_lines split_join_scenario parse_single)
qed

theorem prompt_needs_both_gates_witness:
  "detectPermissionPrompt (js ''a'') (world_lines [LF] scenario_lines) = Inr (Some scenario_prompt) \<and>
   2 \<le> length (options scenario_prompt) \<and>
   (\<exists>output idx. getOutput (js ''a'') 50 (world_lines [LF] scenario_lines) = Inr output \<and>
       find_proceed (split_lines output) = Some idx \<and>
       (\<exists>j. idx < j \<and> j < idx + 15 \<and> j < length (split_lines output) \<and>
            (rx_test footer_re (split_lines output ! j) \<or>
             rx_test selector_re (split_lines output ! j))))"
proof -
  have l: "length scenario_lines \<le> 50" by (simp add: scenario_lines_def)
  have 1: "detectPermissionPrompt (js ''a'') (world_lines [LF] scenario_lines) =
      Inr (Some scenario_prompt)"
    by (simp add: detect_world_lines[OF l] split_join_scenario parse_scenario_lf)
  from prompt_needs_both_gates[of "js ''a''" "world_lines [LF] scenario_lines" scenario_prompt] 1
  show ?thesis by blast
qed

end
